theory Spec2Isabelle
  imports Main "HOL-Library.AList" "HOL-Library.Sublist"
begin

section \<open>Paths, file system and I/O results\<close>

text \<open>
  A path is the list of its components; \<open>path.join\<close> appends components and drops the
  empty ones (\<open>join('a', '', 'b')\<close> is \<open>a/b\<close>). This is \<open>path.join\<close> on fixed directory
  names and hexadecimal digests, which hold no separator and are no dot segment. A
  reference name is free text: \<open>join_name\<close> below joins it as \<open>path.join\<close> parses it.
\<close>

type_synonym path = "string list"

definition join :: "path \<Rightarrow> string list \<Rightarrow> path" where
  "join p cs = p @ filter (\<lambda>c. c \<noteq> []) cs"

text \<open>
  \<open>path.join(dir, name)\<close> for a name that is parsed (with the POSIX separator): the name is
  split at every \<open>/\<close>; an empty segment and \<open>.\<close> are dropped; \<open>..\<close> leaves the directory
  reached so far, or stays in the path where there is none to leave.
\<close>

fun split_segments :: "string \<Rightarrow> string list" where
  "split_segments [] = [[]]"
| "split_segments (c # cs) =
     (if c = CHR ''/'' then [] # split_segments cs
      else (case split_segments cs of [] \<Rightarrow> [[c]] | x # xs \<Rightarrow> (c # x) # xs))"

definition enter_segment :: "path \<Rightarrow> string \<Rightarrow> path" where
  "enter_segment p seg =
     (if seg = [] \<or> seg = ''.'' then p
      else if seg = ''..'' then (if p = [] \<or> last p = ''..'' then p @ [''..''] else butlast p)
      else p @ [seg])"

definition join_name :: "path \<Rightarrow> string \<Rightarrow> path" where
  "join_name dir name = foldl enter_segment dir (split_segments name)"

text \<open>A name that is one component: no separator in it, and no dot segment.\<close>

definition plain_name :: "string \<Rightarrow> bool" where
  "plain_name name = (name \<noteq> [] \<and> CHR ''/'' \<notin> set name \<and> name \<noteq> ''.'' \<and> name \<noteq> ''..'')"

text \<open>\<open>path.relative(from, to)\<close>: climb out of what is left of \<open>from\<close> after the common
  prefix, then descend into what is left of \<open>to\<close>.\<close>

fun relative :: "path \<Rightarrow> path \<Rightarrow> path" where
  "relative (a # as) (b # bs) =
     (if a = b then relative as bs else replicate (Suc (length as)) ''..'' @ (b # bs))"
| "relative as bs = replicate (length as) ''..'' @ bs"

datatype entry = File string | Dir

text \<open>The file system is a finite table from paths to entries, so that a directory can
  be listed.\<close>

type_synonym filesystem = "(path \<times> entry) list"

text \<open>
  The failures of the code are JavaScript \<open>Error\<close> values told apart by their message;
  the constructors carry the names the specification gives them:
  \<open>AlreadyExists\<close> is \<open>'directory already exists'\<close>, \<open>UnsupportedVersion\<close> is
  \<open>'repository version ... is not supported'\<close>, \<open>NotFound\<close> is \<open>'object ... not found'\<close>,
  \<open>MissingHash\<close> is \<open>'hash value of ref is ...'\<close>. \<open>SyntaxError\<close> and \<open>TypeError\<close> are
  the exceptions of \<open>JSON.parse\<close> and of property access on a value that has none;
  \<open>IOError\<close> stands for every rejection of a file-system call.
\<close>

datatype error =
  AlreadyExists | UnsupportedVersion | NotFound | MissingHash
  | SyntaxError | TypeError | IOError

text \<open>A promise that touches the disk: from the file system to an outcome and the file
  system it leaves behind, also when it rejects.\<close>

type_synonym 'a io = "filesystem \<Rightarrow> (error + 'a) \<times> filesystem"

definition resolve :: "'a \<Rightarrow> 'a io" where
  "resolve x = (\<lambda>fs. (Inr x, fs))"

definition reject :: "error \<Rightarrow> 'a io" where
  "reject e = (\<lambda>fs. (Inl e, fs))"

text \<open>\<open>p.then(f)\<close>: a rejection skips \<open>f\<close>.\<close>

definition then_io :: "'a io \<Rightarrow> ('a \<Rightarrow> 'b io) \<Rightarrow> 'b io" where
  "then_io m f = (\<lambda>fs. case m fs of (Inl e, fs') \<Rightarrow> (Inl e, fs') | (Inr x, fs') \<Rightarrow> f x fs')"

text \<open>\<open>p.catch(h)\<close>: a rejection is handed to \<open>h\<close>.\<close>

definition catch_io :: "'a io \<Rightarrow> (error \<Rightarrow> 'a io) \<Rightarrow> 'a io" where
  "catch_io m h = (\<lambda>fs. case m fs of (Inl e, fs') \<Rightarrow> h e fs' | (Inr x, fs') \<Rightarrow> (Inr x, fs'))"

subsection \<open>The calls of fs-extra\<close>

text \<open>The empty path is the working directory, which always exists.\<close>

definition exists_path :: "filesystem \<Rightarrow> path \<Rightarrow> bool" where
  "exists_path fs p = (p = [] \<or> map_of fs p \<noteq> None)"

definition pathExists :: "path \<Rightarrow> bool io" where
  "pathExists p = (\<lambda>fs. (Inr (exists_path fs p), fs))"

definition readFile :: "path \<Rightarrow> string io" where
  "readFile p = (\<lambda>fs. case map_of fs p of
       Some (File c) \<Rightarrow> (Inr c, fs)
     | _ \<Rightarrow> (Inl IOError, fs))"

text \<open>A file is written into an existing directory (the root and the working directory,
  the empty path, always exist); a directory cannot be written as a file.\<close>

definition parent_is_dir :: "filesystem \<Rightarrow> path \<Rightarrow> bool" where
  "parent_is_dir fs p = (butlast p = [] \<or> map_of fs (butlast p) = Some Dir)"

definition writeFile :: "path \<Rightarrow> string \<Rightarrow> unit io" where
  "writeFile p c = (\<lambda>fs.
     if p = [] \<or> map_of fs p = Some Dir \<or> \<not> parent_is_dir fs p then (Inl IOError, fs)
     else (Inr (), AList.update p (File c) fs))"

text \<open>\<open>ensureDir\<close> creates the directory and every missing ancestor, and rejects at the
  first of them that is a file.\<close>

fun mkdirs :: "path list \<Rightarrow> unit io" where
  "mkdirs [] fs = (Inr (), fs)"
| "mkdirs (q # qs) fs =
     (case map_of fs q of
        Some (File c) \<Rightarrow> (Inl IOError, fs)
      | Some Dir \<Rightarrow> mkdirs qs fs
      | None \<Rightarrow> mkdirs qs (AList.update q Dir fs))"

definition ancestors_and_self :: "path \<Rightarrow> path list" where
  "ancestors_and_self p = map (\<lambda>n. take n p) [1..<Suc (length p)]"

definition ensureDir :: "path \<Rightarrow> unit io" where
  "ensureDir p = mkdirs (ancestors_and_self p)"

text \<open>\<open>remove\<close> deletes the entry and everything below it; a missing entry is no error.\<close>

definition remove :: "path \<Rightarrow> unit io" where
  "remove p = (\<lambda>fs. (Inr (), filter (\<lambda>(q, e). \<not> prefix p q) fs))"

text \<open>\<open>move(src, dst, {overwrite: true})\<close>: the source must exist and differ from the
  destination; the destination's directory is created, the destination removed and the
  source (with everything below it) renamed.\<close>

definition rename_entry :: "path \<Rightarrow> path \<Rightarrow> path \<times> entry \<Rightarrow> path \<times> entry" where
  "rename_entry src dst = (\<lambda>(q, e). if prefix src q then (dst @ drop (length src) q, e) else (q, e))"

definition move :: "path \<Rightarrow> path \<Rightarrow> unit io" where
  "move src dst = (\<lambda>fs.
     if map_of fs src = None \<or> src = dst then (Inl IOError, fs)
     else then_io (ensureDir (butlast dst))
            (\<lambda>_. then_io (remove dst) (\<lambda>_ fs'. (Inr (), map (rename_entry src dst) fs'))) fs)"

section \<open>JSON values, \<open>JSON.stringify\<close> and \<open>JSON.parse\<close>\<close>

text \<open>
  The values \<open>JSON.parse\<close> returns. An object is the list of its members in the order of
  the text; reading a property takes the last member of that name, as \<open>JSON.parse\<close> keeps
  the last of several equal keys. Numbers are the integers: a literal with a fraction or
  an exponent is outside the model. Characters are bytes, so an escape \<open>\uXXXX\<close> above
  \<open>00ff\<close> is outside the model too.
\<close>

datatype json =
  JNull | JBool bool | JNumber int | JString string
  | JArray "json list" | JObject "(string \<times> json) list"

abbreviation DQ :: char where "DQ \<equiv> CHR 0x22"
abbreviation BSL :: char where "BSL \<equiv> CHR 0x5C"
abbreviation LF :: char where "LF \<equiv> CHR 0x0A"

text \<open>\<open>obj.k\<close>: the property, or \<open>undefined\<close>.\<close>

fun get_prop :: "json \<Rightarrow> string \<Rightarrow> json option" where
  "get_prop (JObject kvs) k = map_of (rev kvs) k"
| "get_prop v k = None"

text \<open>JavaScript truthiness of a parsed value; arrays and objects are always truthy.\<close>

fun truthy :: "json \<Rightarrow> bool" where
  "truthy JNull = False"
| "truthy (JBool b) = b"
| "truthy (JNumber n) = (n \<noteq> 0)"
| "truthy (JString s) = (s \<noteq> [])"
| "truthy (JArray vs) = True"
| "truthy (JObject kvs) = True"

subsection \<open>Numbers as decimal text\<close>

definition digit_char :: "nat \<Rightarrow> char" where
  "digit_char d = char_of (48 + d)"

fun string_of_nat :: "nat \<Rightarrow> string" where
  "string_of_nat n =
     (if n < 10 then [digit_char n] else string_of_nat (n div 10) @ [digit_char (n mod 10)])"

declare string_of_nat.simps [simp del]

definition string_of_int :: "int \<Rightarrow> string" where
  "string_of_int i = (if i < 0 then CHR ''-'' # string_of_nat (nat (- i)) else string_of_nat (nat i))"

definition is_digit :: "char \<Rightarrow> bool" where
  "is_digit c = (c \<in> set ''0123456789'')"

definition digit_val :: "char \<Rightarrow> nat" where
  "digit_val c = of_char c - 48"

definition nat_of_digits :: "string \<Rightarrow> nat" where
  "nat_of_digits ds = foldl (\<lambda>n c. 10 * n + digit_val c) 0 ds"

subsection \<open>String literals\<close>

definition is_control :: "char \<Rightarrow> bool" where
  "is_control c = ((of_char c :: nat) < 32)"

definition hex_char :: "nat \<Rightarrow> char" where
  "hex_char d = ''0123456789abcdef'' ! d"

text \<open>\<open>JSON.stringify\<close> of one character of a string.\<close>

definition escape_char :: "char \<Rightarrow> string" where
  "escape_char c =
     (if c = DQ then [BSL, DQ]
      else if c = BSL then [BSL, BSL]
      else if c = CHR 0x08 then [BSL, CHR ''b'']
      else if c = CHR 0x0C then [BSL, CHR ''f'']
      else if c = LF then [BSL, CHR ''n'']
      else if c = CHR 0x0D then [BSL, CHR ''r'']
      else if c = CHR 0x09 then [BSL, CHR ''t'']
      else if is_control c then
        [BSL, CHR ''u'', CHR ''0'', CHR ''0'', hex_char (of_char c div 16), hex_char (of_char c mod 16)]
      else [c])"

definition quote :: "string \<Rightarrow> string" where
  "quote s = DQ # concat (map escape_char s) @ [DQ]"

definition hex_val :: "char \<Rightarrow> nat option" where
  "hex_val c =
     (if is_digit c then Some (digit_val c)
      else if c \<in> set ''abcdef'' then Some (of_char c - 87)
      else if c \<in> set ''ABCDEF'' then Some (of_char c - 55)
      else None)"

definition hex4 :: "char \<Rightarrow> char \<Rightarrow> char \<Rightarrow> char \<Rightarrow> char option" where
  "hex4 h1 h2 h3 h4 =
     (case (hex_val h1, hex_val h2, hex_val h3, hex_val h4) of
        (Some a, Some b, Some c, Some d) \<Rightarrow>
          (if a = 0 \<and> b = 0 then Some (char_of (16 * c + d)) else None)
      | _ \<Rightarrow> None)"

definition unescape :: "char \<Rightarrow> char option" where
  "unescape e =
     (if e = DQ then Some DQ
      else if e = BSL then Some BSL
      else if e = CHR ''/'' then Some (CHR ''/'')
      else if e = CHR ''b'' then Some (CHR 0x08)
      else if e = CHR ''f'' then Some (CHR 0x0C)
      else if e = CHR ''n'' then Some LF
      else if e = CHR ''r'' then Some (CHR 0x0D)
      else if e = CHR ''t'' then Some (CHR 0x09)
      else None)"

text \<open>The characters of a string literal after its opening quote, up to the closing
  one: the string and the text that follows. A raw control character is a syntax
  error.\<close>

fun parse_chars :: "string \<Rightarrow> (string \<times> string) option" where
  "parse_chars [] = None"
| "parse_chars (c # cs) =
     (if c = DQ then Some ([], cs)
      else if c = BSL then
        (case cs of
           [] \<Rightarrow> None
         | e # r \<Rightarrow>
             if e = CHR ''u'' then
               (case r of
                  h1 # h2 # h3 # h4 # r' \<Rightarrow>
                    (case hex4 h1 h2 h3 h4 of
                       None \<Rightarrow> None
                     | Some ch \<Rightarrow>
                         (case parse_chars r' of None \<Rightarrow> None | Some (s, t) \<Rightarrow> Some (ch # s, t)))
                | _ \<Rightarrow> None)
             else
               (case unescape e of
                  None \<Rightarrow> None
                | Some ch \<Rightarrow>
                    (case parse_chars r of None \<Rightarrow> None | Some (s, t) \<Rightarrow> Some (ch # s, t))))
      else if is_control c then None
      else (case parse_chars cs of None \<Rightarrow> None | Some (s, t) \<Rightarrow> Some (c # s, t)))"

subsection \<open>\<open>JSON.stringify\<close>\<close>

fun intersperse :: "string \<Rightarrow> string list \<Rightarrow> string" where
  "intersperse sep [] = []"
| "intersperse sep [x] = x"
| "intersperse sep (x # y # ys) = x @ sep @ intersperse sep (y # ys)"

fun JSON_stringify :: "json \<Rightarrow> string" where
  "JSON_stringify JNull = ''null''"
| "JSON_stringify (JBool b) = (if b then ''true'' else ''false'')"
| "JSON_stringify (JNumber n) = string_of_int n"
| "JSON_stringify (JString s) = quote s"
| "JSON_stringify (JArray vs) = ''['' @ intersperse '','' (map JSON_stringify vs) @ '']''"
| "JSON_stringify (JObject kvs) =
     ''{'' @ intersperse '','' (map (\<lambda>(k, v). quote k @ '':'' @ JSON_stringify v) kvs) @ ''}''"

subsection \<open>\<open>JSON.parse\<close>\<close>

definition is_ws :: "char \<Rightarrow> bool" where
  "is_ws c = (c = CHR '' '' \<or> c = CHR 0x09 \<or> c = LF \<or> c = CHR 0x0D)"

definition skip_ws :: "string \<Rightarrow> string" where
  "skip_ws s = dropWhile is_ws s"

text \<open>An integer literal: an optional minus, then \<open>0\<close> or digits without a leading zero.
  A fraction or an exponent after it is not modelled and is refused.\<close>

definition parse_number :: "string \<Rightarrow> (json \<times> string) option" where
  "parse_number s =
     (let neg = (case s of c # t \<Rightarrow> c = CHR ''-'' | [] \<Rightarrow> False);
          s1 = (if neg then tl s else s);
          ds = takeWhile is_digit s1;
          r = dropWhile is_digit s1
      in if ds = [] \<or> (1 < length ds \<and> hd ds = CHR ''0'')
            \<or> (case r of c # t \<Rightarrow> c \<in> set ''.eE'' | [] \<Rightarrow> False)
         then None
         else Some (JNumber (if neg then - int (nat_of_digits ds) else int (nat_of_digits ds)), r))"

definition parse_literal :: "string \<Rightarrow> json \<Rightarrow> string \<Rightarrow> (json \<times> string) option" where
  "parse_literal w v s = (if take (length w) s = w then Some (v, drop (length w) s) else None)"

text \<open>
  Recursive descent over the text. Each function returns what it read and the text that
  follows. The tests \<open>length r < length s\<close> never fail (what follows is always shorter
  than the text); they make the recursion visibly terminate.
\<close>

function (sequential) parse_value :: "string \<Rightarrow> (json \<times> string) option"
  and parse_elements :: "string \<Rightarrow> (json list \<times> string) option"
  and parse_members :: "string \<Rightarrow> ((string \<times> json) list \<times> string) option"
where
  "parse_value [] = None"
| "parse_value (c # cs) =
     (if is_ws c then parse_value cs
      else if c = CHR ''{'' then
        (case skip_ws cs of
           [] \<Rightarrow> None
         | d # r \<Rightarrow>
             if d = CHR ''}'' then Some (JObject [], r)
             else (case parse_members cs of None \<Rightarrow> None | Some (kvs, t) \<Rightarrow> Some (JObject kvs, t)))
      else if c = CHR ''['' then
        (case skip_ws cs of
           [] \<Rightarrow> None
         | d # r \<Rightarrow>
             if d = CHR '']'' then Some (JArray [], r)
             else (case parse_elements cs of None \<Rightarrow> None | Some (vs, t) \<Rightarrow> Some (JArray vs, t)))
      else if c = DQ then
        (case parse_chars cs of None \<Rightarrow> None | Some (s, t) \<Rightarrow> Some (JString s, t))
      else if c = CHR ''t'' then parse_literal ''true'' (JBool True) (c # cs)
      else if c = CHR ''f'' then parse_literal ''false'' (JBool False) (c # cs)
      else if c = CHR ''n'' then parse_literal ''null'' JNull (c # cs)
      else parse_number (c # cs))"
| "parse_elements s =
     (case parse_value s of
        None \<Rightarrow> None
      | Some (v, r) \<Rightarrow>
          (case skip_ws r of
             [] \<Rightarrow> None
           | d # r' \<Rightarrow>
               if d = CHR '']'' then Some ([v], r')
               else if d = CHR '','' \<and> length r' < length s then
                 (case parse_elements r' of None \<Rightarrow> None | Some (vs, t) \<Rightarrow> Some (v # vs, t))
               else None))"
| "parse_members s =
     (case skip_ws s of
        [] \<Rightarrow> None
      | q # s1 \<Rightarrow>
          if q \<noteq> DQ then None
          else
            (case parse_chars s1 of
               None \<Rightarrow> None
             | Some (k, s2) \<Rightarrow>
                 (case skip_ws s2 of
                    [] \<Rightarrow> None
                  | col # s3 \<Rightarrow>
                      if col = CHR '':'' \<and> length s3 < length s then
                        (case parse_value s3 of
                           None \<Rightarrow> None
                         | Some (v, r) \<Rightarrow>
                             (case skip_ws r of
                                [] \<Rightarrow> None
                              | d # r' \<Rightarrow>
                                  if d = CHR ''}'' then Some ([(k, v)], r')
                                  else if d = CHR '','' \<and> length r' < length s then
                                    (case parse_members r' of
                                       None \<Rightarrow> None
                                     | Some (kvs, t) \<Rightarrow> Some ((k, v) # kvs, t))
                                  else None))
                      else None)))"
  by pat_completeness auto
termination
  by (relation "measure (\<lambda>x. case x of
         Inl s \<Rightarrow> 2 * length s
       | Inr (Inl s) \<Rightarrow> 2 * length s + 1
       | Inr (Inr s) \<Rightarrow> 2 * length s + 1)") auto

declare parse_elements.simps [simp del] parse_members.simps [simp del]

text \<open>\<open>JSON.parse\<close>: one value, then nothing but white space.\<close>

definition JSON_parse :: "string \<Rightarrow> error + json" where
  "JSON_parse s =
     (case parse_value s of
        None \<Rightarrow> Inl SyntaxError
      | Some (v, r) \<Rightarrow> if skip_ws r = [] then Inr v else Inl SyntaxError)"

section \<open>The object database\<close>

subsection \<open>Repository, configuration and handle\<close>

record init_options =
  commondir :: path
  compress :: bool

record repository =
  options :: init_options
  repoWorkDir :: path

text \<open>Modelled from the spec: \<open>Repository.commondir()\<close> is not among the sources; it is the
  metadata root the repository was given.\<close>

definition Repository_commondir :: "repository \<Rightarrow> path" where
  "Repository_commondir r = commondir (options r)"

definition defaultConfig :: json where
  "defaultConfig =
     JObject [(''version'', JNumber 2), (''filemode'', JBool False), (''symlinks'', JBool True)]"

record odb =
  config :: json
  repo :: repository

text \<open>\<open>Odb.open\<close>. Reading a property of \<open>null\<close> throws; of any other value that lacks it,
  it gives \<open>undefined\<close>, which is not \<open>=== 1\<close>.\<close>

definition "open" :: "repository \<Rightarrow> odb io" where
  "open r =
     then_io (readFile (join (Repository_commondir r) [''config''])) (\<lambda>buf.
       case JSON_parse buf of
         Inl e \<Rightarrow> reject e
       | Inr cfg \<Rightarrow>
           if cfg = JNull then reject TypeError
           else if get_prop cfg ''version'' = Some (JNumber 1) then reject UnsupportedVersion
           else resolve \<lparr>config = cfg, repo = r\<rparr>)"

text \<open>\<open>Odb.create\<close>.\<close>

definition create :: "repository \<Rightarrow> init_options \<Rightarrow> odb io" where
  "create r opts =
     then_io (pathExists (commondir opts)) (\<lambda>exists.
     then_io (if exists then reject AlreadyExists else ensureDir (commondir opts)) (\<lambda>_.
     then_io (ensureDir (join (commondir opts) [''objects''])) (\<lambda>_.
     then_io (ensureDir (join (commondir opts) [''versions''])) (\<lambda>_.
     then_io (ensureDir (join (commondir opts) [''hooks''])) (\<lambda>_.
     then_io (ensureDir (join (commondir opts) [''refs''])) (\<lambda>_.
     then_io (writeFile (join (commondir opts) [''config'']) (JSON_stringify defaultConfig)) (\<lambda>_.
     resolve \<lparr>config = defaultConfig, repo = r\<rparr>)))))))"

subsection \<open>References\<close>

text \<open>A \<open>Reference\<close>; \<open>None\<close> is \<open>undefined\<close>, and \<open>Some JNull\<close> is user data that is \<open>null\<close>.\<close>

record reference =
  refName :: string
  ref_hash :: "string option"
  ref_start :: "string option"
  ref_userData :: "json option"





definition writeHeadReference :: "odb \<Rightarrow> reference \<Rightarrow> unit io" where
  "writeHeadReference db head =
     writeFile (join (commondir (options (repo db))) [''HEAD''])
       (if refName head = ''HEAD'' then (case ref_hash head of None \<Rightarrow> ''undefined'' | Some h \<Rightarrow> h)
        else refName head)"

text \<open>\<open>readHeadReference\<close>: the text of the file, or \<open>undefined\<close> (\<open>None\<close>) when the read is
  rejected.\<close>

definition readHeadReference :: "odb \<Rightarrow> string option io" where
  "readHeadReference db =
     catch_io
       (then_io (readFile (join (commondir (options (repo db))) [''HEAD''])) (\<lambda>buf. resolve (Some buf)))
       (\<lambda>e. resolve None)"

text \<open>\<open>String.prototype.trim\<close> on bytes: the white space and line terminators of
  ECMAScript below \<open>0x100\<close>.\<close>

definition is_js_space :: "char \<Rightarrow> bool" where
  "is_js_space c = (c \<in> set [CHR 0x09, CHR 0x0A, CHR 0x0B, CHR 0x0C, CHR 0x0D, CHR 0x20, CHR 0xA0])"

definition String_trim :: "string \<Rightarrow> string" where
  "String_trim s = rev (dropWhile is_js_space (rev (dropWhile is_js_space s)))"

subsection \<open>Blobs\<close>

record hash_block =
  hb_start :: nat
  hb_end :: nat
  hb_hash :: string

text \<open>Modelled from the spec: \<open>IoContext.copyFile\<close> is not among the sources; it copies a
  file's bytes from a source path to a destination path.\<close>

definition copyFile :: "path \<Rightarrow> path \<Rightarrow> unit io" where
  "copyFile src dst = then_io (readFile src) (\<lambda>c. writeFile dst c)"

text \<open>Modelled from the spec: \<open>calculateFileHash\<close> is not among the sources; it reads the
  file at the path and gives its content hash and, optionally, its hash blocks. The hash
  function itself is a parameter.\<close>

definition calculateFileHash ::
  "(string \<Rightarrow> string \<times> hash_block list option) \<Rightarrow> path \<Rightarrow> (string \<times> hash_block list option) io" where
  "calculateFileHash hasher p = then_io (readFile p) (\<lambda>c. resolve (hasher c))"

text \<open>Modelled from the spec: \<open>zipFile\<close> is not among the sources; the temp file is
  compressed into the destination and removed afterward. The codec is a parameter; the
  destination's directory is created as \<open>move\<close> creates it.\<close>

definition zipFile :: "(string \<Rightarrow> string) \<Rightarrow> path \<Rightarrow> path \<Rightarrow> unit io" where
  "zipFile codec src dst =
     then_io (readFile src) (\<lambda>c.
     then_io (ensureDir (butlast dst)) (\<lambda>_.
     then_io (writeFile dst (codec c)) (\<lambda>_.
     remove src)))"

text \<open>The two-level shard of a hash below a directory: \<open>substr(0, 2)\<close>, \<open>substr(2, 2)\<close>, the
  hash.\<close>

definition shard :: "path \<Rightarrow> string \<Rightarrow> path" where
  "shard dir h = join dir [take 2 h, take 2 (drop 2 h), h]"

definition getObjectPath :: "odb \<Rightarrow> string \<Rightarrow> path" where
  "getObjectPath db h = shard (join (commondir (options (repo db))) [''objects'']) h"

text \<open>\<open>`${dstFile}.hblock`\<close>: the suffix goes on the last component.\<close>

definition add_suffix :: "path \<Rightarrow> string \<Rightarrow> path" where
  "add_suffix p x = (if p = [] then [x] else butlast p @ [last p @ x])"

definition hblock_line :: "hash_block \<Rightarrow> string" where
  "hblock_line b =
     string_of_nat (hb_start b) @ '';'' @ string_of_nat (hb_end b) @ '';'' @ hb_hash b @ '';''"

definition hblock_content :: "hash_block list \<Rightarrow> string" where
  "hblock_content bs = intersperse [LF] (map hblock_line bs)"

text \<open>\<open>Odb.writeObject\<close>. The temporary name comes from the clock and is an argument.
  The result is the source path relative to the working directory, and the hash.\<close>

definition writeObject ::
  "(string \<Rightarrow> string \<times> hash_block list option) \<Rightarrow> (string \<Rightarrow> string) \<Rightarrow> odb \<Rightarrow> string \<Rightarrow> path
     \<Rightarrow> (path \<times> string) io" where
  "writeObject hasher codec db tmpFilename filepath =
     (let objects = join (commondir (options (repo db))) [''objects''];
          tmpDir = join (commondir (options (repo db))) [''tmp''];
          tmpPath = join tmpDir [tmpFilename]
      in
        then_io (ensureDir tmpDir) (\<lambda>_.
        then_io (copyFile filepath tmpPath) (\<lambda>_.
        then_io (calculateFileHash hasher filepath) (\<lambda>res.
          let filehash = fst res; hashBlocks = snd res; dstFile = shard objects filehash in
          then_io (pathExists dstFile) (\<lambda>exists.
          then_io (if exists then remove tmpPath
                   else if compress (options (repo db)) then zipFile codec tmpPath dstFile
                   else move tmpPath dstFile) (\<lambda>_.
          then_io (case hashBlocks of
                     Some bs \<Rightarrow> writeFile (add_suffix dstFile ''.hblock'') (hblock_content bs)
                   | None \<Rightarrow> resolve ()) (\<lambda>_.
          resolve (relative (repoWorkDir (repo db)) filepath, filehash))))))))"

text \<open>\<open>Odb.readObject\<close>.\<close>

definition readObject :: "odb \<Rightarrow> string \<Rightarrow> path \<Rightarrow> unit io" where
  "readObject db h dst =
     (let objectFile = join (commondir (options (repo db)))
                         [''objects'', take 2 h, take 2 (drop 2 h), h] in
      then_io (pathExists objectFile) (\<lambda>exists.
        if \<not> exists then reject NotFound else copyFile objectFile dst))"

subsection \<open>Commits and trees\<close>

text \<open>The tree model: a directory with its children in order, or a file with its content
  hash (empty for an unhashed placeholder). The back-reference to the parent is not
  owned and is left out.\<close>

datatype tree = TreeDir string "tree list" | TreeFile string string

record commit =
  commit_hash :: string
  message :: string
  date :: int
  parent :: "string list"
  root :: tree
  tags :: "string list option"
  commit_userData :: "json option"

text \<open>Modelled from the spec: \<open>TreeDir.toString\<close> and \<open>TreeFile.toString\<close> are not among the
  sources. The tree is serialized recursively, children in the order of the in-memory
  sequence; a directory's persisted form carries a children field, a file's carries its
  hash and none.\<close>

fun tree_json :: "tree \<Rightarrow> json" where
  "tree_json (TreeFile name h) = JObject [(''name'', JString name), (''hash'', JString h)]"
| "tree_json (TreeDir name children) =
     JObject [(''name'', JString name), (''children'', JArray (map tree_json children))]"

definition tree_toString :: "tree \<Rightarrow> string" where
  "tree_toString t = JSON_stringify (tree_json t)"

definition in_quotes :: "string \<Rightarrow> string" where
  "in_quotes s = DQ # s @ [DQ]"

text \<open>The line break of the template literal and the indentation of its next line.\<close>

definition line_break :: string where
  "line_break = LF # replicate 18 (CHR '' '')"

text \<open>\<open>`"${commit.parent.join('","')}"`\<close>\<close>

definition parent_text :: "string list \<Rightarrow> string" where
  "parent_text ps = in_quotes (intersperse (DQ # '','' @ [DQ]) ps)"

text \<open>The \<open>forEach\<close> over the tags: the separator is a blank before the first tag and
  \<open>', '\<close> before every other.\<close>

fun tag_items :: "string \<Rightarrow> string list \<Rightarrow> string" where
  "tag_items sep [] = []"
| "tag_items sep (t # ts) = sep @ in_quotes t @ tag_items '', '' ts"

definition tags_text :: "string list option \<Rightarrow> string" where
  "tags_text tgs =
     (case tgs of
        None \<Rightarrow> []
      | Some ts \<Rightarrow> '','' @ in_quotes ''tags'' @ '': ['' @ tag_items '' '' ts @ '' ]'')"

definition userData_text :: "json option \<Rightarrow> string" where
  "userData_text ud =
     (case ud of
        None \<Rightarrow> []
      | Some u \<Rightarrow> if truthy u then '','' @ in_quotes ''userData'' @ '': '' @ JSON_stringify u else [])"

text \<open>Everything \<open>writeCommit\<close> writes to the stream, in order.\<close>

definition commit_text :: "commit \<Rightarrow> string" where
  "commit_text c =
     ''{''
     @ in_quotes ''hash'' @ '': '' @ in_quotes (commit_hash c) @ '','' @ line_break
     @ in_quotes ''message'' @ '': '' @ in_quotes (message c) @ '','' @ line_break
     @ in_quotes ''date'' @ '': '' @ string_of_int (date c) @ '','' @ line_break
     @ in_quotes ''parent'' @ '': ['' @ parent_text (parent c) @ ''], '' @ in_quotes ''root'' @ '':''
     @ tree_toString (root c)
     @ tags_text (tags c)
     @ userData_text (commit_userData c)
     @ ''}''"

text \<open>\<open>Odb.writeCommit\<close>: the stream is opened with flag \<open>w\<close> on the file named by the hash
  in \<open>versions\<close>. The hash is joined as \<open>path.join\<close> parses it; a path that would end with
  a separator cannot be opened for writing.\<close>

definition writeCommit :: "odb \<Rightarrow> commit \<Rightarrow> unit io" where
  "writeCommit db c =
     (let objectsDir = join (commondir (options (repo db))) [''versions''];
          dstFile = join_name objectsDir (commit_hash c)
      in if commit_hash c \<noteq> [] \<and> last (commit_hash c) = CHR ''/'' then reject IOError
         else writeFile dstFile (commit_text c))"

text \<open>What \<open>readCommits\<close> rebuilds. A node keeps the members of the parsed object it was
  re-typed from; a directory holds its visited children in place of the parsed ones.\<close>

datatype node =
  DirNode "(string \<times> json) list" "node list"
  | FileNode "(string \<times> json) list"
  | NodeArray "node list"

text \<open>The inner function \<open>visit\<close> of \<open>readCommits\<close>. \<open>null\<close> has no properties; a number, a
  string or a boolean cannot be given a parent; a truthy \<open>children\<close> that is no array has no
  \<open>map\<close>.\<close>

lemma size_map_of_json:
  "map_of kvs k = Some (v :: json) \<Longrightarrow> size v < Suc (size_list (size_prod (\<lambda>x. 0) size) kvs)"
  by (induction kvs) (auto split: if_splits)

function (sequential) visit :: "json \<Rightarrow> error + node"
  and visit_all :: "json list \<Rightarrow> error + node list"
where
  "visit (JArray xs) =
     (case visit_all xs of Inl e \<Rightarrow> Inl e | Inr ns \<Rightarrow> Inr (NodeArray ns))"
| "visit (JObject kvs) =
     (case map_of (rev kvs) ''children'' of
        None \<Rightarrow> Inr (FileNode kvs)
      | Some ch \<Rightarrow>
          if truthy ch then
            (case ch of
               JArray cs \<Rightarrow> (case visit_all cs of Inl e \<Rightarrow> Inl e | Inr ns \<Rightarrow> Inr (DirNode kvs ns))
             | _ \<Rightarrow> Inl TypeError)
          else Inr (FileNode kvs))"
| "visit JNull = Inl TypeError"
| "visit (JBool b) = Inl TypeError"
| "visit (JNumber n) = Inl TypeError"
| "visit (JString s) = Inl TypeError"
| "visit_all [] = Inr []"
| "visit_all (x # xs) =
     (case visit x of
        Inl e \<Rightarrow> Inl e
      | Inr n \<Rightarrow> (case visit_all xs of Inl e \<Rightarrow> Inl e | Inr ns \<Rightarrow> Inr (n # ns)))"
  by pat_completeness auto
termination
  apply (relation "measure (\<lambda>x. case x of Inl v \<Rightarrow> 2 * size v | Inr vs \<Rightarrow> 2 * size_list size vs + 1)")
       apply auto
  subgoal for kvs cs
    using size_map_of_json [of "rev kvs" "''children''" "JArray cs"]
    by (simp add: size_list_conv_sum_list rev_map [symmetric])
  done

text \<open>\<open>new Date(v)\<close> for a parsed \<open>v\<close>: a number is the epoch milliseconds, clipped to the
  range of time values; a value that is neither a number, \<open>null\<close>, a boolean nor missing
  is converted through its text, which is not evaluated here.\<close>

datatype js_date = DateMs int | InvalidDate | DateOther json

fun new_Date :: "json option \<Rightarrow> js_date" where
  "new_Date None = InvalidDate"
| "new_Date (Some (JNumber n)) = (if \<bar>n\<bar> \<le> 8640000000000000 then DateMs n else InvalidDate)"
| "new_Date (Some JNull) = DateMs 0"
| "new_Date (Some (JBool b)) = DateMs (if b then 1 else 0)"
| "new_Date (Some v) = DateOther v"

record read_commit =
  rc_props :: "(string \<times> json) list"
  rc_date :: js_date
  rc_root :: node

text \<open>One parsed commit made a \<open>Commit\<close>: only an object can take the date; a missing root
  has no properties to visit.\<close>

definition revive :: "json \<Rightarrow> error + read_commit" where
  "revive v =
     (case v of
        JObject kvs \<Rightarrow>
          (case map_of (rev kvs) ''root'' of
             None \<Rightarrow> Inl TypeError
           | Some rt \<Rightarrow>
               (case visit rt of
                  Inl e \<Rightarrow> Inl e
                | Inr n \<Rightarrow>
                    Inr \<lparr>rc_props = kvs, rc_date = new_Date (map_of (rev kvs) ''date''), rc_root = n\<rparr>))
      | JArray vs \<Rightarrow> Inl TypeError
      | _ \<Rightarrow> Inl TypeError)"

fun revive_all :: "json list \<Rightarrow> error + read_commit list" where
  "revive_all [] = Inr []"
| "revive_all (v # vs) =
     (case revive v of
        Inl e \<Rightarrow> Inl e
      | Inr c \<Rightarrow> (case revive_all vs of Inl e \<Rightarrow> Inl e | Inr cs \<Rightarrow> Inr (c # cs)))"

text \<open>Modelled from the spec: \<open>osWalk\<close> is not among the sources; with \<open>OSWALK.FILES\<close> it
  enumerates every file under the directory, in a non-recursive file walk.\<close>

definition osWalk_files :: "path \<Rightarrow> filesystem \<Rightarrow> path list" where
  "osWalk_files dir fs =
     filter (\<lambda>p. p \<noteq> [] \<and> butlast p = dir \<and> (case map_of fs p of Some (File c) \<Rightarrow> True | _ \<Rightarrow> False))
       (remdups (map fst fs))"

text \<open>\<open>Promise.all\<close> over the reads: every file is read and parsed; the first failure
  rejects the whole.\<close>

fun read_all :: "path list \<Rightarrow> json list io" where
  "read_all [] = resolve []"
| "read_all (p # ps) =
     then_io (readFile p) (\<lambda>buf.
       case JSON_parse buf of
         Inl e \<Rightarrow> reject e
       | Inr v \<Rightarrow> then_io (read_all ps) (\<lambda>vs. resolve (v # vs)))"

text \<open>\<open>Odb.readCommits\<close>.\<close>

definition readCommits :: "odb \<Rightarrow> read_commit list io" where
  "readCommits db =
     (let objectsDir = join (commondir (options (repo db))) [''versions''] in
      (\<lambda>fs. then_io (read_all (osWalk_files objectsDir fs))
               (\<lambda>commits. case revive_all commits of Inl e \<Rightarrow> reject e | Inr cs \<Rightarrow> resolve cs) fs))"

text \<open>The comparison the round trip is about: the same kind of node at every place, the
  children in the same order, the same names and the same file hashes.\<close>

fun same_tree :: "tree \<Rightarrow> node \<Rightarrow> bool"
  and same_trees :: "tree list \<Rightarrow> node list \<Rightarrow> bool"
where
  "same_tree (TreeDir name children) n =
     (case n of
        DirNode kvs ns \<Rightarrow> map_of (rev kvs) ''name'' = Some (JString name) \<and> same_trees children ns
      | _ \<Rightarrow> False)"
| "same_tree (TreeFile name h) n =
     (case n of
        FileNode kvs \<Rightarrow>
          map_of (rev kvs) ''name'' = Some (JString name) \<and> map_of (rev kvs) ''hash'' = Some (JString h)
      | _ \<Rightarrow> False)"
| "same_trees [] ns = (ns = [])"
| "same_trees (t # ts) ns =
     (case ns of [] \<Rightarrow> False | n # ns' \<Rightarrow> same_tree t n \<and> same_trees ts ns')"

subsection \<open>A repository to run the operations on\<close>

definition example_options :: init_options where
  "example_options = \<lparr>commondir = [''repo'', ''.snow''], compress = False\<rparr>"

definition example_repo :: repository where
  "example_repo = \<lparr>options = example_options, repoWorkDir = [''repo'']\<rparr>"

definition example_odb :: odb where
  "example_odb = \<lparr>config = defaultConfig, repo = example_repo\<rparr>"

text \<open>The file system \<open>create\<close> leaves behind when it starts from an empty one.\<close>

definition example_fs :: filesystem where
  "example_fs = snd (create example_repo example_options [])"






text \<open>A stand-in for the hasher, with one fixed digest and one block per file; a working
  file; and a store that already holds the object of that digest.\<close>

definition example_hasher :: "string \<Rightarrow> string \<times> hash_block list option" where
  "example_hasher c = (''c0ffee'', Some [\<lparr>hb_start = 0, hb_end = length c, hb_hash = ''c0ffee''\<rparr>])"

definition example_store :: filesystem where
  "example_store =
     example_fs
     @ [([''repo'', ''a.txt''], File ''hello''),
        ([''repo'', ''.snow'', ''objects'', ''c0''], Dir),
        ([''repo'', ''.snow'', ''objects'', ''c0'', ''ff''], Dir),
        ([''repo'', ''.snow'', ''objects'', ''c0'', ''ff'', ''c0ffee''], File ''hello'')]"

text \<open>The working tree before anything is stored, and a handle on the same repository
  with compression switched on.\<close>

definition example_worktree :: filesystem where
  "example_worktree = example_fs @ [([''repo'', ''a.txt''], File ''hello'')]"

definition example_odb_compress :: odb where
  "example_odb_compress =
     \<lparr>config = defaultConfig,
      repo = \<lparr>options = \<lparr>commondir = [''repo'', ''.snow''], compress = True\<rparr>,
              repoWorkDir = [''repo'']\<rparr>\<rparr>"

subsection \<open>What the round trip of a commit is stated with\<close>

text \<open>A string that \<open>writeCommit\<close> can embed between quotes as it is: no quote, no
  backslash, no control character.\<close>

definition safe_char :: "char \<Rightarrow> bool" where
  "safe_char c = (c \<noteq> DQ \<and> c \<noteq> BSL \<and> \<not> is_control c)"

definition quoting_safe :: "string \<Rightarrow> bool" where
  "quoting_safe s = list_all safe_char s"

text \<open>A text before which a number literal ends: the end of the input, or a character
  that continues no number.\<close>

fun number_end :: "string \<Rightarrow> bool" where
  "number_end [] = True"
| "number_end (c # cs) = (\<not> is_digit c \<and> c \<notin> set ''.eE'')"

text \<open>A first commit: no parents, a tree of two levels, no tags and no user data; and the
  same commit tagged with an empty collection.\<close>

definition example_commit :: commit where
  "example_commit =
     \<lparr>commit_hash = ''abc123'', message = ''Created Project'', date = 1612137600000, parent = [],
      root = TreeDir [] [TreeFile ''a.txt'' ''c0ffee'', TreeDir ''sub'' [TreeFile ''b.txt'' ''decaf'']],
      tags = None, commit_userData = None\<rparr>"

definition example_commit_no_tags :: commit where
  "example_commit_no_tags = example_commit\<lparr>tags := Some []\<rparr>"
text \<open>The persisted form of a commit: the object that the text of \<open>writeCommit\<close> denotes
  when the strings it embeds raw are safe. The parent array is what \<open>parent_text\<close> puts
  between the brackets: the hashes, or one empty string when there are none.\<close>

definition persisted_parent :: "string list \<Rightarrow> json" where
  "persisted_parent ps = JArray (if ps = [] then [JString []] else map JString ps)"

definition persisted_tags :: "string list option \<Rightarrow> (string \<times> json) list" where
  "persisted_tags tgs = (case tgs of None \<Rightarrow> [] | Some ts \<Rightarrow> [(''tags'', JArray (map JString ts))])"

definition persisted_userData :: "json option \<Rightarrow> (string \<times> json) list" where
  "persisted_userData ud =
     (case ud of None \<Rightarrow> [] | Some u \<Rightarrow> if truthy u then [(''userData'', u)] else [])"

definition persisted :: "commit \<Rightarrow> json" where
  "persisted c =
     JObject ([(''hash'', JString (commit_hash c)), (''message'', JString (message c)),
               (''date'', JNumber (date c)), (''parent'', persisted_parent (parent c)),
               (''root'', tree_json (root c))]
              @ persisted_tags (tags c) @ persisted_userData (commit_userData c))"

text \<open>A file from which \<open>readCommits\<close> gets a commit: its text parses and the value is
  made a commit without a failure.\<close>

definition readable_commit :: "filesystem \<Rightarrow> path \<Rightarrow> bool" where
  "readable_commit fs q =
     (case map_of fs q of
        Some (File t) \<Rightarrow>
          (case JSON_parse t of
             Inr v \<Rightarrow> (case revive v of Inr rc \<Rightarrow> True | Inl e \<Rightarrow> False)
           | Inl e \<Rightarrow> False)
      | _ \<Rightarrow> False)"

text \<open>The strings of a commit that \<open>writeCommit\<close> embeds raw.\<close>

definition raw_strings_safe :: "commit \<Rightarrow> bool" where
  "raw_strings_safe c =
     (quoting_safe (commit_hash c) \<and> quoting_safe (message c) \<and> list_all quoting_safe (parent c)
      \<and> (case tags c of None \<Rightarrow> True | Some ts \<Rightarrow> list_all quoting_safe ts))"

section \<open>Promises and file-system calls\<close>

lemma then_io_no_error:
  "(\<And>fs. fst (m fs) \<noteq> Inl e) \<Longrightarrow> (\<And>x fs. fst (f x fs) \<noteq> Inl e) \<Longrightarrow> fst (then_io m f fs) \<noteq> Inl e"
  by (auto simp: then_io_def split: prod.splits sum.splits) (metis fst_conv)

lemma then_io_keeps_existing:
  "(\<And>fs. map_of fs p \<noteq> None \<Longrightarrow> map_of (snd (m fs)) p \<noteq> None)
     \<Longrightarrow> (\<And>x fs. map_of fs p \<noteq> None \<Longrightarrow> map_of (snd (f x fs)) p \<noteq> None)
     \<Longrightarrow> map_of fs p \<noteq> None
     \<Longrightarrow> map_of (snd (then_io m f fs)) p \<noteq> None"
  by (auto simp: then_io_def split: prod.splits sum.splits) (metis snd_conv)+

lemma mkdirs_outcome: "fst (mkdirs qs fs) = Inl IOError \<or> fst (mkdirs qs fs) = Inr ()"
  by (induction qs arbitrary: fs) (auto split: option.splits entry.splits)

text \<open>\<open>ensureDir\<close> only adds entries.\<close>

lemma mkdirs_keeps: "map_of fs p = Some e \<Longrightarrow> map_of (snd (mkdirs qs fs)) p = Some e"
proof (induction qs arbitrary: fs)
  case Nil
  then show ?case by simp
next
  case (Cons a qs)
  show ?case
  proof (cases "map_of fs a")
    case None
    with Cons.prems have "a \<noteq> p" by auto
    then have "map_of (AList.update a Dir fs) p = Some e"
      using Cons.prems by (simp add: update_conv')
    then show ?thesis using None Cons.IH by simp
  next
    case (Some x)
    then show ?thesis using Cons by (cases x) auto
  qed
qed

lemma mkdirs_makes:
  "fst (mkdirs qs fs) = Inr () \<Longrightarrow> q \<in> set qs \<Longrightarrow> map_of (snd (mkdirs qs fs)) q = Some Dir"
proof (induction qs arbitrary: fs)
  case Nil
  then show ?case by simp
next
  case (Cons a qs)
  show ?case
  proof (cases "map_of fs a")
    case None
    with Cons show ?thesis
      by (cases "q = a") (auto simp: mkdirs_keeps update_conv')
  next
    case (Some e)
    with Cons show ?thesis
      by (cases e; cases "q = a") (auto simp: mkdirs_keeps)
  qed
qed

lemma ensureDir_outcome: "fst (ensureDir p fs) = Inl IOError \<or> fst (ensureDir p fs) = Inr ()"
  by (simp add: ensureDir_def mkdirs_outcome)

lemma ensureDir_keeps: "map_of fs p = Some e \<Longrightarrow> map_of (snd (ensureDir q fs)) p = Some e"
  by (simp add: ensureDir_def mkdirs_keeps)

lemma ensureDir_keeps_existing: "map_of fs p \<noteq> None \<Longrightarrow> map_of (snd (ensureDir q fs)) p \<noteq> None"
  using ensureDir_keeps by fastforce

lemma self_in_ancestors: "p \<noteq> [] \<Longrightarrow> p \<in> set (ancestors_and_self p)"
  unfolding ancestors_and_self_def
  by (metis (no_types, lifting) One_nat_def Suc_leI atLeastLessThan_iff image_eqI length_greater_0_conv lessI
      list.set_map order.refl set_upt take_all)

lemma ensureDir_makes:
  "fst (ensureDir p fs) = Inr () \<Longrightarrow> p \<noteq> [] \<Longrightarrow> map_of (snd (ensureDir p fs)) p = Some Dir"
  by (simp add: ensureDir_def mkdirs_makes self_in_ancestors)

lemma ensureDir_no_AlreadyExists: "fst (ensureDir p fs) \<noteq> Inl AlreadyExists"
  using ensureDir_outcome [of p fs] by auto

lemma writeFile_outcome: "fst (writeFile p c fs) = Inl IOError \<or> fst (writeFile p c fs) = Inr ()"
  by (simp add: writeFile_def)

lemma writeFile_no_AlreadyExists: "fst (writeFile p c fs) \<noteq> Inl AlreadyExists"
  using writeFile_outcome [of p c fs] by auto

lemma writeFile_keeps_existing: "map_of fs p \<noteq> None \<Longrightarrow> map_of (snd (writeFile q c fs)) p \<noteq> None"
  by (simp add: writeFile_def update_conv')

section \<open>\<open>create\<close>\<close>

lemma create_when_exists:
  "exists_path fs (commondir opts) \<Longrightarrow> create r opts fs = (Inl AlreadyExists, fs)"
  by (simp add: create_def then_io_def pathExists_def reject_def)

lemma create_when_new:
  assumes "\<not> exists_path fs (commondir opts)"
  shows "fst (create r opts fs) \<noteq> Inl AlreadyExists"
proof -
  have "create r opts fs =
     then_io (ensureDir (commondir opts)) (\<lambda>_.
     then_io (ensureDir (join (commondir opts) [''objects''])) (\<lambda>_.
     then_io (ensureDir (join (commondir opts) [''versions''])) (\<lambda>_.
     then_io (ensureDir (join (commondir opts) [''hooks''])) (\<lambda>_.
     then_io (ensureDir (join (commondir opts) [''refs''])) (\<lambda>_.
     then_io (writeFile (join (commondir opts) [''config'']) (JSON_stringify defaultConfig)) (\<lambda>_.
     resolve \<lparr>config = defaultConfig, repo = r\<rparr>)))))) fs"
    using assms by (simp add: create_def then_io_def pathExists_def)
  moreover have "fst (\<dots>) \<noteq> Inl AlreadyExists"
    by (intro then_io_no_error ensureDir_no_AlreadyExists writeFile_no_AlreadyExists)
       (simp add: resolve_def)
  ultimately show ?thesis by simp
qed

text \<open>A \<open>create\<close> that succeeds leaves the metadata directory behind.\<close>

lemma create_leaves_commondir:
  assumes ok: "fst (create r opts fs) = Inr db"
  shows "exists_path (snd (create r opts fs)) (commondir opts)"
proof (cases "exists_path fs (commondir opts)")
  case True
  then show ?thesis using ok by (simp add: create_when_exists)
next
  case False
  then have ne: "commondir opts \<noteq> []" by (simp add: exists_path_def)
  let ?cd = "commondir opts"
  let ?P = "\<lambda>fs. map_of fs ?cd \<noteq> None"
  let ?k = "
     then_io (ensureDir (join ?cd [''objects''])) (\<lambda>_.
     then_io (ensureDir (join ?cd [''versions''])) (\<lambda>_.
     then_io (ensureDir (join ?cd [''hooks''])) (\<lambda>_.
     then_io (ensureDir (join ?cd [''refs''])) (\<lambda>_.
     then_io (writeFile (join ?cd [''config'']) (JSON_stringify defaultConfig)) (\<lambda>_.
     resolve \<lparr>config = defaultConfig, repo = r\<rparr>)))))"
  have unfold: "create r opts fs = then_io (ensureDir ?cd) (\<lambda>_. ?k) fs"
    using False by (simp add: create_def then_io_def pathExists_def)
  have first: "fst (ensureDir ?cd fs) = Inr ()"
    using ok unfold by (auto simp: then_io_def split: prod.splits sum.splits)
  then have rest: "create r opts fs = ?k (snd (ensureDir ?cd fs))"
    using unfold by (auto simp: then_io_def split: prod.splits sum.splits)
  have made: "?P (snd (ensureDir ?cd fs))"
    using ensureDir_makes [OF first ne] by simp
  have "?P (snd (?k fs1))" if "?P fs1" for fs1
    by (intro then_io_keeps_existing ensureDir_keeps_existing writeFile_keeps_existing)
       (simp_all add: resolve_def that)
  from this [OF made] show ?thesis using rest by (simp add: exists_path_def)
qed

text \<open>
  C5. \<open>create\<close> fails with AlreadyExists exactly when something exists at the path of the
  metadata directory; on that failure the file system is left as it was; and a \<open>create\<close>
  that succeeded makes the next \<open>create\<close> on the same target fail with AlreadyExists,
  leaving the store of the first call untouched.
\<close>

theorem create_AlreadyExists:
  "(fst (create r opts fs) = Inl AlreadyExists \<longleftrightarrow> exists_path fs (commondir opts))
   \<and> (exists_path fs (commondir opts) \<longrightarrow> snd (create r opts fs) = fs)
   \<and> (\<forall>db. fst (create r opts fs) = Inr db \<longrightarrow>
        create r opts (snd (create r opts fs)) = (Inl AlreadyExists, snd (create r opts fs)))"
  using create_when_exists [of fs opts r] create_when_new [of fs opts r]
    create_leaves_commondir [of r opts fs]
    create_when_exists [of "snd (create r opts fs)" opts r]
  by auto

lemma example_fs_eq:
  "example_fs =
     [([''repo''], Dir), ([''repo'', ''.snow''], Dir),
      ([''repo'', ''.snow'', ''objects''], Dir),
      ([''repo'', ''.snow'', ''versions''], Dir),
      ([''repo'', ''.snow'', ''hooks''], Dir),
      ([''repo'', ''.snow'', ''refs''], Dir),
      ([''repo'', ''.snow'', ''config''], File (JSON_stringify defaultConfig))]"
  by code_simp

lemma example_create: "fst (create example_repo example_options []) = Inr example_odb"
  by code_simp

theorem create_AlreadyExists_witness:
  "fst (create example_repo example_options []) = Inr example_odb
   \<and> create example_repo example_options example_fs = (Inl AlreadyExists, example_fs)
   \<and> exists_path example_fs (commondir example_options)
   \<and> snd (create example_repo example_options example_fs) = example_fs"
proof -
  have "exists_path example_fs (commondir example_options)"
    by (simp add: example_fs_eq example_options_def exists_path_def)
  then show ?thesis
    using example_create create_AlreadyExists [of example_repo example_options "[]"]
      create_AlreadyExists [of example_repo example_options example_fs]
    by (simp add: example_fs_def)
qed

section \<open>\<open>readHeadReference\<close>\<close>

text \<open>
  C9, as amended. \<open>readHeadReference\<close> returns the text of the HEAD file at the metadata
  root as it is stored, without trimming; when the file cannot be read (it is absent, or
  a directory) the result is \<open>undefined\<close> and no error is propagated. The file system is
  left as it was.
\<close>

theorem readHeadReference_verbatim:
  "readHeadReference db fs =
     (Inr (case map_of fs (join (commondir (options (repo db))) [''HEAD'']) of
             Some (File c) \<Rightarrow> Some c
           | Some Dir \<Rightarrow> None
           | None \<Rightarrow> None), fs)"
  by (simp add: readHeadReference_def catch_io_def then_io_def readFile_def resolve_def
      split: option.splits entry.splits)

text \<open>The claim as stated fails on a HEAD file that starts with a blank and ends with a
  line break: what is returned is the stored text, not its trimmed form.\<close>

theorem readHeadReference_not_trimmed:
  "fst (readHeadReference example_odb
          (AList.update [''repo'', ''.snow'', ''HEAD''] (File '' main\<newline>'') example_fs))
     = Inr (Some '' main\<newline>'')
   \<and> String_trim '' main\<newline>'' = ''main''
   \<and> fst (readHeadReference example_odb
          (AList.update [''repo'', ''.snow'', ''HEAD''] (File '' main\<newline>'') example_fs))
     \<noteq> Inr (Some (String_trim '' main\<newline>''))"
  by (simp add: example_fs_eq) code_simp

section \<open>\<open>open\<close>\<close>

text \<open>The one test of \<open>open\<close> is \<open>version === 1\<close>.\<close>

lemma open_parsed:
  assumes "map_of fs (join (Repository_commondir r) [''config'']) = Some (File txt)"
    and "JSON_parse txt = Inr (JObject kvs)"
  shows "open r fs =
     (if map_of (rev kvs) ''version'' = Some (JNumber 1) then (Inl UnsupportedVersion, fs)
      else (Inr \<lparr>config = JObject kvs, repo = r\<rparr>, fs))"
  using assms by (simp add: open_def then_io_def readFile_def reject_def resolve_def)

text \<open>
  C4, as amended. For every stored configuration record, \<open>open\<close> fails with
  UnsupportedVersion exactly when the stored version is the number 1; for every other
  stored record, version 0 among them, it returns a handle with the record loaded. Either
  way the file system is left as it was, and nothing is read but the configuration.
\<close>

theorem open_version:
  assumes "map_of fs (join (Repository_commondir r) [''config'']) = Some (File txt)"
    and "JSON_parse txt = Inr (JObject kvs)"
  shows "open r fs =
     (if map_of (rev kvs) ''version'' = Some (JNumber 1) then (Inl UnsupportedVersion, fs)
      else (Inr \<lparr>config = JObject kvs, repo = r\<rparr>, fs))"
  using assms by (simp add: open_def then_io_def readFile_def reject_def resolve_def)

lemma parse_defaultConfig: "JSON_parse (JSON_stringify defaultConfig) = Inr defaultConfig"
  by code_simp

lemma example_config_path: "join (Repository_commondir example_repo) [''config''] = [''repo'', ''.snow'', ''config'']"
  by code_simp

theorem open_version_witness:
  "open example_repo example_fs = (Inr example_odb, example_fs)
   \<and> open example_repo
        [([''repo'', ''.snow'', ''config''],
          File (JSON_stringify (JObject [(''version'', JNumber 1), (''filemode'', JBool False)])))]
      = (Inl UnsupportedVersion,
         [([''repo'', ''.snow'', ''config''],
          File (JSON_stringify (JObject [(''version'', JNumber 1), (''filemode'', JBool False)])))])"
proof -
  have p1: "JSON_parse (JSON_stringify (JObject [(''version'', JNumber 1), (''filemode'', JBool False)]))
      = Inr (JObject [(''version'', JNumber 1), (''filemode'', JBool False)])"
    by code_simp
  have a: "open example_repo example_fs = (Inr example_odb, example_fs)"
    using open_version [of example_fs example_repo "JSON_stringify defaultConfig"
        "[(''version'', JNumber 2), (''filemode'', JBool False), (''symlinks'', JBool True)]"]
      parse_defaultConfig
    by (simp add: example_config_path example_fs_eq example_odb_def) (simp add: defaultConfig_def)
  have b: "open example_repo
        [([''repo'', ''.snow'', ''config''],
          File (JSON_stringify (JObject [(''version'', JNumber 1), (''filemode'', JBool False)])))]
      = (Inl UnsupportedVersion,
         [([''repo'', ''.snow'', ''config''],
          File (JSON_stringify (JObject [(''version'', JNumber 1), (''filemode'', JBool False)])))])"
    using open_version [of _ example_repo _ "[(''version'', JNumber 1), (''filemode'', JBool False)]", OF _ p1]
    by (simp add: example_config_path)
  show ?thesis using a b by simp
qed

text \<open>The claim as stated fails at version 0, which is below the minimum and is
  accepted.\<close>

theorem open_version_0_accepted:
  "fst (open example_repo
        [([''repo'', ''.snow'', ''config''],
          File (JSON_stringify (JObject [(''version'', JNumber 0), (''filemode'', JBool False), (''symlinks'', JBool True)])))])
      = Inr \<lparr>config = JObject [(''version'', JNumber 0), (''filemode'', JBool False), (''symlinks'', JBool True)],
             repo = example_repo\<rparr>
   \<and> fst (open example_repo
        [([''repo'', ''.snow'', ''config''],
          File (JSON_stringify (JObject [(''version'', JNumber 0), (''filemode'', JBool False), (''symlinks'', JBool True)])))])
      \<noteq> Inl UnsupportedVersion"
  by code_simp

lemma then_io_establishes:
  "(\<And>x fs. fst (f x fs) = Inr y \<Longrightarrow> map_of (snd (f x fs)) p = Some e)
     \<Longrightarrow> fst (then_io m f fs) = Inr y \<Longrightarrow> map_of (snd (then_io m f fs)) p = Some e"
proof -
  assume step: "\<And>x fs. fst (f x fs) = Inr y \<Longrightarrow> map_of (snd (f x fs)) p = Some e"
    and ok: "fst (then_io m f fs) = Inr y"
  obtain o1 fs1 where m: "m fs = (o1, fs1)" by (cases "m fs")
  show ?thesis
  proof (cases o1)
    case (Inl err)
    with m ok show ?thesis by (simp add: then_io_def)
  next
    case (Inr x)
    with m have "then_io m f fs = f x fs1" by (simp add: then_io_def)
    with ok step [of x fs1] show ?thesis by simp
  qed
qed

lemma create_writes_config:
  assumes ok: "fst (create r opts fs) = Inr db"
  shows "map_of (snd (create r opts fs)) (join (commondir opts) [''config''])
           = Some (File (JSON_stringify defaultConfig))"
proof -
  have new: "\<not> exists_path fs (commondir opts)"
    using ok create_when_exists [of fs opts r] by auto
  let ?cd = "commondir opts"
  let ?k = "
     then_io (ensureDir ?cd) (\<lambda>_.
     then_io (ensureDir (join ?cd [''objects''])) (\<lambda>_.
     then_io (ensureDir (join ?cd [''versions''])) (\<lambda>_.
     then_io (ensureDir (join ?cd [''hooks''])) (\<lambda>_.
     then_io (ensureDir (join ?cd [''refs''])) (\<lambda>_.
     then_io (writeFile (join ?cd [''config'']) (JSON_stringify defaultConfig)) (\<lambda>_.
     resolve \<lparr>config = defaultConfig, repo = r\<rparr>))))))"
  have unfold: "create r opts fs = ?k fs"
    using new by (simp add: create_def then_io_def pathExists_def)
  have last: "map_of (snd (then_io (writeFile (join ?cd [''config'']) (JSON_stringify defaultConfig))
                 (\<lambda>_. resolve \<lparr>config = defaultConfig, repo = r\<rparr>) fs1)) (join ?cd [''config''])
               = Some (File (JSON_stringify defaultConfig))"
    if "fst (then_io (writeFile (join ?cd [''config'']) (JSON_stringify defaultConfig))
                 (\<lambda>_. resolve \<lparr>config = defaultConfig, repo = r\<rparr>) fs1) = Inr db" for fs1
    using that by (auto simp: then_io_def writeFile_def resolve_def update_conv' split: if_splits)
  have "map_of (snd (?k fs)) (join ?cd [''config'']) = Some (File (JSON_stringify defaultConfig))"
    using ok unfolding unfold
    by (intro then_io_establishes [where y = db] last) simp_all
  then show ?thesis using unfold by simp
qed

lemma create_result:
  assumes ok: "fst (create r opts fs) = Inr db"
  shows "db = \<lparr>config = defaultConfig, repo = r\<rparr>"
proof -
  have new: "\<not> exists_path fs (commondir opts)"
    using ok create_when_exists [of fs opts r] by auto
  show ?thesis
    using ok new
    by (auto simp: create_def then_io_def pathExists_def resolve_def split: prod.splits sum.splits)
qed

text \<open>
  C10. When \<open>create\<close> succeeds on the metadata directory of the repository, an \<open>open\<close> that
  follows it succeeds and returns the handle \<open>create\<close> returned: the configuration is the
  default one, of version 2, read back from the file \<open>create\<close> wrote.
\<close>

theorem create_then_open:
  assumes "fst (create r opts fs) = Inr db"
    and "Repository_commondir r = commondir opts"
  shows "open r (snd (create r opts fs)) = (Inr db, snd (create r opts fs))
         \<and> config db = defaultConfig
         \<and> get_prop (config db) ''version'' = Some (JNumber 2)"
proof -
  have db: "db = \<lparr>config = defaultConfig, repo = r\<rparr>"
    using assms(1) by (rule create_result)
  have cfg_file: "map_of (snd (create r opts fs)) (join (Repository_commondir r) [''config''])
           = Some (File (JSON_stringify defaultConfig))"
    using create_writes_config [OF assms(1)] assms(2) by simp
  have parse: "JSON_parse (JSON_stringify defaultConfig)
      = Inr (JObject [(''version'', JNumber 2), (''filemode'', JBool False), (''symlinks'', JBool True)])"
    using parse_defaultConfig by (simp add: defaultConfig_def)
  have "open r (snd (create r opts fs)) = (Inr db, snd (create r opts fs))"
    using open_parsed [OF cfg_file parse] db by (simp add: defaultConfig_def)
  then show ?thesis using db by (simp add: defaultConfig_def)
qed

theorem create_then_open_witness:
  "fst (create example_repo example_options []) = Inr example_odb
   \<and> Repository_commondir example_repo = commondir example_options
   \<and> open example_repo example_fs = (Inr example_odb, example_fs)
   \<and> config example_odb = defaultConfig"
  using create_then_open [of example_repo example_options "[]" example_odb] example_create
  by (simp add: example_fs_def Repository_commondir_def example_repo_def)

section \<open>\<open>writeReference\<close>\<close>


lemma split_segments_plain: "CHR ''/'' \<notin> set name \<Longrightarrow> split_segments name = [name]"
  by (induction name) auto

lemma join_name_plain: "plain_name name \<Longrightarrow> join_name dir name = dir @ [name]"
  by (simp add: plain_name_def join_name_def split_segments_plain enter_segment_def)

lemma writeFile_cases:
  "writeFile p c fs =
     (if p \<noteq> [] \<and> parent_is_dir fs p \<and> map_of fs p \<noteq> Some Dir
      then (Inr (), AList.update p (File c) fs) else (Inl IOError, fs))"
  by (auto simp: writeFile_def)




section \<open>\<open>writeObject\<close> and \<open>readObject\<close>\<close>

lemma mkdirs_other: "q \<notin> set qs \<Longrightarrow> map_of (snd (mkdirs qs fs)) q = map_of fs q"
  by (induction qs arbitrary: fs) (auto split: option.splits entry.splits simp: update_conv')

lemma ancestors_are_prefixes: "q \<in> set (ancestors_and_self p) \<Longrightarrow> prefix q p"
  by (auto simp: ancestors_and_self_def take_is_prefix)

lemma ensureDir_other: "\<not> prefix q p \<Longrightarrow> map_of (snd (ensureDir p fs)) q = map_of fs q"
  using ancestors_are_prefixes by (auto simp: ensureDir_def intro: mkdirs_other)

lemma map_of_remove: "map_of (snd (remove p fs)) q = (if prefix p q then None else map_of fs q)"
  by (induction fs) (auto simp: remove_def)

lemma remove_ok: "fst (remove p fs) = Inr ()"
  by (simp add: remove_def)

text \<open>Paths below the metadata root that start with different names are unrelated.\<close>

lemma prefix_same_root: "prefix (cd @ a # as) (cd @ b # bs) \<Longrightarrow> a = b"
  by simp

lemma shard_form: "\<exists>hs. shard (join cd [''objects'']) h = cd @ ''objects'' # hs"
  by (simp add: shard_def join_def)

lemma add_suffix_form:
  "\<exists>x xs. add_suffix (cd @ ''objects'' # hs) ''.hblock'' = cd @ x # xs \<and> x \<noteq> ''tmp''"
  by (cases hs rule: rev_cases) (auto simp: add_suffix_def butlast_append)

lemma writeObject_dedup_run:
  fixes db :: odb and t :: string and filepath :: path
  defines "cd \<equiv> commondir (options (repo db))"
  defines "tmpDir \<equiv> cd @ [''tmp'']"
  defines "tmpPath \<equiv> cd @ [''tmp'', t]"
  assumes tmp_ok: "fst (ensureDir tmpDir fs) = Inr ()"
    and src: "map_of fs filepath = Some (File c)"
    and t_ne: "t \<noteq> []"
    and tmp_free: "map_of fs tmpPath \<noteq> Some Dir"
    and hashed: "hasher c = (h, blocks)"
    and present: "map_of fs (shard (join cd [''objects'']) h) \<noteq> None"
    and side_ok: "blocks \<noteq> None \<Longrightarrow>
          map_of fs (butlast (shard (join cd [''objects'']) h)) = Some Dir
          \<and> map_of fs (add_suffix (shard (join cd [''objects'']) h) ''.hblock'') \<noteq> Some Dir"
  shows "writeObject hasher codec db t filepath fs =
     (Inr (relative (repoWorkDir (repo db)) filepath, h),
      (case blocks of
         None \<Rightarrow> snd (remove tmpPath (AList.update tmpPath (File c) (snd (ensureDir tmpDir fs))))
       | Some bs \<Rightarrow>
           AList.update (add_suffix (shard (join cd [''objects'']) h) ''.hblock'') (File (hblock_content bs))
             (snd (remove tmpPath (AList.update tmpPath (File c) (snd (ensureDir tmpDir fs)))))))"
proof -
  let ?dst = "shard (join cd [''objects'']) h"
  let ?side = "add_suffix ?dst ''.hblock''"
  define fs1 where "fs1 = snd (ensureDir tmpDir fs)"
  let ?fs1 = fs1
  let ?fs2 = "AList.update tmpPath (File c) ?fs1"
  let ?fs3 = "snd (remove tmpPath ?fs2)"
  obtain hs where dst: "?dst = cd @ ''objects'' # hs"
    using shard_form by blast
  obtain x xs where side: "?side = cd @ x # xs" and x: "x \<noteq> ''tmp''"
    using add_suffix_form [of cd hs] dst by auto
  have paths: "join cd [''tmp''] = tmpDir" "join tmpDir [t] = tmpPath"
    using t_ne by (simp_all add: join_def tmpDir_def tmpPath_def)
  have e1: "ensureDir tmpDir fs = (Inr (), ?fs1)"
    using tmp_ok by (simp add: prod_eq_iff fs1_def)
  have dir1: "map_of ?fs1 tmpDir = Some Dir"
    using ensureDir_makes [OF tmp_ok] by (simp add: tmpDir_def fs1_def)
  have src1: "map_of ?fs1 filepath = Some (File c)"
    unfolding fs1_def using src by (rule ensureDir_keeps)
  have "\<not> prefix tmpPath tmpDir"
    by (simp add: tmpPath_def tmpDir_def)
  then have free1: "map_of ?fs1 tmpPath \<noteq> Some Dir"
    using tmp_free by (simp add: ensureDir_other fs1_def)
  have par: "butlast tmpPath = tmpDir"
    by (simp add: tmpPath_def tmpDir_def butlast_append)
  have w: "writeFile tmpPath c ?fs1 = (Inr (), ?fs2)"
    using free1 dir1 by (simp add: writeFile_def parent_is_dir_def par) (simp add: tmpPath_def)
  have copy: "copyFile filepath tmpPath ?fs1 = (Inr (), ?fs2)"
    using src1 w by (simp add: copyFile_def then_io_def readFile_def)
  have src2: "map_of ?fs2 filepath = Some (File c)"
    using src1 by (simp add: update_conv')
  have hash: "calculateFileHash hasher filepath ?fs2 = (Inr (h, blocks), ?fs2)"
    using src2 hashed by (simp add: calculateFileHash_def then_io_def readFile_def resolve_def)
  have dst_tmp: "?dst \<noteq> tmpPath" "\<not> prefix tmpPath ?dst"
    by (simp_all add: dst tmpPath_def)
  have ex2: "exists_path ?fs2 ?dst"
    using present ensureDir_keeps_existing [of fs ?dst tmpDir] dst_tmp
    by (simp add: exists_path_def update_conv' fs1_def)
  have rem: "remove tmpPath ?fs2 = (Inr (), ?fs3)"
    by (simp add: remove_def)
  show ?thesis
  proof (cases blocks)
    case None
    then show ?thesis
      using e1 copy hash ex2
      unfolding writeObject_def Let_def cd_def [symmetric] fs1_def [symmetric]
      by (simp add: paths then_io_def pathExists_def resolve_def remove_def)
  next
    case (Some bs)
    then have s: "map_of fs (butlast ?dst) = Some Dir" "map_of fs ?side \<noteq> Some Dir"
      using side_ok by auto
    have bl: "butlast ?side = butlast ?dst"
      by (simp add: add_suffix_def dst butlast_append)
    have np: "\<not> prefix tmpPath ?side" "?side \<noteq> tmpPath" "\<not> prefix ?side tmpDir"
      using x by (auto simp: side tmpPath_def tmpDir_def)
    have bnp: "\<not> prefix tmpPath (butlast ?dst)" "butlast ?dst \<noteq> tmpPath"
      by (auto simp: dst tmpPath_def butlast_append prefix_def)
    have side3: "map_of ?fs3 ?side \<noteq> Some Dir"
      using s(2) np by (simp add: map_of_remove update_conv' ensureDir_other fs1_def)
    have par3: "map_of ?fs3 (butlast ?side) = Some Dir"
      using s(1) bnp ensureDir_keeps [of fs "butlast ?dst" Dir tmpDir]
      by (simp add: bl map_of_remove update_conv' fs1_def)
    have sne: "?side \<noteq> []"
      by (simp add: side)
    have ws: "writeFile ?side (hblock_content bs) ?fs3
        = (Inr (), AList.update ?side (File (hblock_content bs)) ?fs3)"
      using side3 par3 sne by (simp add: writeFile_def parent_is_dir_def)
    show ?thesis
      using Some e1 copy hash ex2 ws
      unfolding writeObject_def Let_def cd_def [symmetric] fs1_def [symmetric]
      by (simp add: paths then_io_def pathExists_def resolve_def remove_def)
  qed
qed

lemma then_io_Inr_cases:
  assumes "then_io m f fs = (Inr y, fs')"
  obtains x fs1 where "m fs = (Inr x, fs1)" and "f x fs1 = (Inr y, fs')"
  using assms by (cases "m fs") (auto simp: then_io_def split: sum.splits)

lemma writeObject_result:
  assumes src: "map_of fs filepath = Some (File c)"
    and run: "writeObject hasher codec db t filepath fs = (Inr res, fs')"
  shows "res = (relative (repoWorkDir (repo db)) filepath, fst (hasher c))"
proof -
  let ?cd = "commondir (options (repo db))"
  let ?tmpDir = "join ?cd [''tmp'']"
  let ?tmpPath = "join ?tmpDir [t]"
  from run obtain u1 fs1 where
    s1: "ensureDir ?tmpDir fs = (Inr u1, fs1)" and
    r1: "then_io (copyFile filepath ?tmpPath) (\<lambda>_.
        then_io (calculateFileHash hasher filepath) (\<lambda>res.
          let filehash = fst res; hashBlocks = snd res; dstFile = shard (join ?cd [''objects'']) filehash in
          then_io (pathExists dstFile) (\<lambda>exists.
          then_io (if exists then remove ?tmpPath
                   else if compress (options (repo db)) then zipFile codec ?tmpPath dstFile
                   else move ?tmpPath dstFile) (\<lambda>_.
          then_io (case hashBlocks of
                     Some bs \<Rightarrow> writeFile (add_suffix dstFile ''.hblock'') (hblock_content bs)
                   | None \<Rightarrow> resolve ()) (\<lambda>_.
          resolve (relative (repoWorkDir (repo db)) filepath, filehash)))))) fs1 = (Inr res, fs')"
    unfolding writeObject_def Let_def by (rule then_io_Inr_cases)
  have src1: "map_of fs1 filepath = Some (File c)"
    using ensureDir_keeps [OF src, of ?tmpDir] s1 by simp
  from r1 obtain u2 fs2 where
    s2: "copyFile filepath ?tmpPath fs1 = (Inr u2, fs2)" and
    r2: "then_io (calculateFileHash hasher filepath) (\<lambda>res.
          let filehash = fst res; hashBlocks = snd res; dstFile = shard (join ?cd [''objects'']) filehash in
          then_io (pathExists dstFile) (\<lambda>exists.
          then_io (if exists then remove ?tmpPath
                   else if compress (options (repo db)) then zipFile codec ?tmpPath dstFile
                   else move ?tmpPath dstFile) (\<lambda>_.
          then_io (case hashBlocks of
                     Some bs \<Rightarrow> writeFile (add_suffix dstFile ''.hblock'') (hblock_content bs)
                   | None \<Rightarrow> resolve ()) (\<lambda>_.
          resolve (relative (repoWorkDir (repo db)) filepath, filehash))))) fs2 = (Inr res, fs')"
    by (rule then_io_Inr_cases)
  have fs2: "fs2 = AList.update ?tmpPath (File c) fs1"
    using s2 src1 by (auto simp: copyFile_def then_io_def readFile_def writeFile_def split: if_splits)
  have src2: "map_of fs2 filepath = Some (File c)"
    using src1 by (simp add: fs2 update_conv')
  have hash: "calculateFileHash hasher filepath fs2 = (Inr (hasher c), fs2)"
    using src2 by (simp add: calculateFileHash_def then_io_def readFile_def resolve_def)
  from r2 obtain x3 fs3 where
    s3: "calculateFileHash hasher filepath fs2 = (Inr x3, fs3)" and
    r3: "(let filehash = fst x3; hashBlocks = snd x3; dstFile = shard (join ?cd [''objects'']) filehash in
          then_io (pathExists dstFile) (\<lambda>exists.
          then_io (if exists then remove ?tmpPath
                   else if compress (options (repo db)) then zipFile codec ?tmpPath dstFile
                   else move ?tmpPath dstFile) (\<lambda>_.
          then_io (case hashBlocks of
                     Some bs \<Rightarrow> writeFile (add_suffix dstFile ''.hblock'') (hblock_content bs)
                   | None \<Rightarrow> resolve ()) (\<lambda>_.
          resolve (relative (repoWorkDir (repo db)) filepath, filehash))))) fs3 = (Inr res, fs')"
    by (rule then_io_Inr_cases)
  have x3: "x3 = hasher c" using s3 hash by simp
  from r3 show ?thesis
    unfolding Let_def x3
    by (elim then_io_Inr_cases) (simp add: resolve_def)
qed

lemma add_suffix_neq:
  assumes "p \<noteq> []" and "x \<noteq> []"
  shows "add_suffix p x \<noteq> p"
proof
  assume "add_suffix p x = p"
  then have "last (add_suffix p x) = last p" by simp
  moreover have "last (add_suffix p x) = last p @ x"
    using assms by (simp add: add_suffix_def)
  ultimately show False using assms by simp
qed

text \<open>
  C2, as amended. When an object already exists at the sharded path of the source's
  content hash (and the temp area can be written, and the sidecar too when the hasher
  made blocks), \<open>writeObject\<close> succeeds and returns the hash and the path relative to the
  working tree, which are what every successful write of the same content returns; the
  temp copy is gone; the stored object is as it was and no other path below \<open>objects\<close> is
  created or changed, but for the sidecar: it is left alone when the hasher made no
  blocks and is written again, with the blocks, when it made some.
\<close>

theorem writeObject_dedup:
  fixes db :: odb and t :: string and filepath :: path and h :: string
  defines "cd \<equiv> commondir (options (repo db))"
  defines "dst \<equiv> shard (join (commondir (options (repo db))) [''objects'']) h"
  assumes tmp_ok: "fst (ensureDir (cd @ [''tmp'']) fs) = Inr ()"
    and src: "map_of fs filepath = Some (File c)"
    and t_ne: "t \<noteq> []"
    and tmp_free: "map_of fs (cd @ [''tmp'', t]) \<noteq> Some Dir"
    and hashed: "hasher c = (h, blocks)"
    and present: "map_of fs dst \<noteq> None"
    and side_ok: "blocks \<noteq> None \<Longrightarrow>
          map_of fs (butlast dst) = Some Dir \<and> map_of fs (add_suffix dst ''.hblock'') \<noteq> Some Dir"
  shows "\<exists>fs'. writeObject hasher codec db t filepath fs
            = (Inr (relative (repoWorkDir (repo db)) filepath, h), fs')
     \<and> map_of fs' dst = map_of fs dst
     \<and> map_of fs' (cd @ [''tmp'', t]) = None
     \<and> (\<forall>q. prefix (cd @ [''objects'']) q \<and> q \<noteq> add_suffix dst ''.hblock'' \<longrightarrow> map_of fs' q = map_of fs q)
     \<and> map_of fs' (add_suffix dst ''.hblock'')
          = (case blocks of None \<Rightarrow> map_of fs (add_suffix dst ''.hblock'')
             | Some bs \<Rightarrow> Some (File (hblock_content bs)))
     \<and> (\<forall>fs0 res fs0'. map_of fs0 filepath = Some (File c)
            \<and> writeObject hasher codec db t filepath fs0 = (Inr res, fs0')
          \<longrightarrow> res = (relative (repoWorkDir (repo db)) filepath, h))"
proof -
  let ?tmpDir = "cd @ [''tmp'']"
  let ?tmpPath = "cd @ [''tmp'', t]"
  let ?side = "add_suffix dst ''.hblock''"
  define fs3 where "fs3 = snd (remove ?tmpPath (AList.update ?tmpPath (File c) (snd (ensureDir ?tmpDir fs))))"
  define fs' where "fs' = (case blocks of None \<Rightarrow> fs3
       | Some bs \<Rightarrow> AList.update ?side (File (hblock_content bs)) fs3)"
  have dstj: "dst = shard (join cd [''objects'']) h"
    by (simp add: dst_def cd_def)
  have run: "writeObject hasher codec db t filepath fs
            = (Inr (relative (repoWorkDir (repo db)) filepath, h), fs')"
    using writeObject_dedup_run [of db fs filepath c t hasher h blocks codec]
      tmp_ok src t_ne tmp_free hashed present side_ok
    unfolding cd_def [symmetric] dstj [symmetric] fs'_def fs3_def
    by (simp split: option.splits)
  obtain hs where dst: "dst = cd @ ''objects'' # hs"
    using shard_form [of cd h] dstj by auto
  obtain x xs where side: "?side = cd @ x # xs" and x: "x \<noteq> ''tmp''"
    using add_suffix_form [of cd hs] dst by auto
  have fs3: "map_of fs3 q = map_of fs q" if "prefix (cd @ [''objects'']) q" for q
  proof -
    from that obtain r where q: "q = cd @ ''objects'' # r"
      by (auto simp: prefix_def)
    have "\<not> prefix q ?tmpDir" "q \<noteq> ?tmpPath" "\<not> prefix ?tmpPath q"
      by (auto simp: q prefix_def)
    then show ?thesis
      by (simp add: fs3_def map_of_remove update_conv' ensureDir_other)
  qed
  have side_dst: "?side \<noteq> dst"
    by (rule add_suffix_neq) (simp_all add: dst)
  have side3: "map_of fs3 ?side = map_of fs ?side"
  proof -
    have "\<not> prefix ?side ?tmpDir" "?side \<noteq> ?tmpPath" "\<not> prefix ?tmpPath ?side"
      using x by (auto simp: side prefix_def)
    then show ?thesis
      by (simp add: fs3_def map_of_remove update_conv' ensureDir_other)
  qed
  have a: "map_of fs' dst = map_of fs dst"
    using fs3 [of dst] side_dst by (simp add: fs'_def dst update_conv' split: option.splits)
  have b: "map_of fs' ?tmpPath = None"
    using x by (auto simp: fs'_def fs3_def map_of_remove update_conv' side split: option.splits)
  have c: "map_of fs' q = map_of fs q" if "prefix (cd @ [''objects'']) q" "q \<noteq> ?side" for q
    using fs3 [OF that(1)] that(2) by (simp add: fs'_def update_conv' split: option.splits)
  have d: "map_of fs' ?side = (case blocks of None \<Rightarrow> map_of fs ?side
             | Some bs \<Rightarrow> Some (File (hblock_content bs)))"
    using side3 by (simp add: fs'_def update_conv' split: option.splits)
  have e: "res = (relative (repoWorkDir (repo db)) filepath, h)"
    if "map_of fs0 filepath = Some (File c)"
      "writeObject hasher codec db t filepath fs0 = (Inr res, fs0')" for fs0 res fs0'
    using writeObject_result [OF that] hashed by simp
  have c': "\<forall>q. prefix (cd @ [''objects'']) q \<and> q \<noteq> ?side \<longrightarrow> map_of fs' q = map_of fs q"
    using c by simp
  have e': "\<forall>fs0 res fs0'. map_of fs0 filepath = Some (File c)
            \<and> writeObject hasher codec db t filepath fs0 = (Inr res, fs0')
          \<longrightarrow> res = (relative (repoWorkDir (repo db)) filepath, h)"
    using e by blast
  show ?thesis
    by (rule exI [of _ fs']) (intro conjI run a b c' d e')
qed

lemma ancestors_values:
  "ancestors_and_self [a, b, c] = [[a], [a, b], [a, b, c]]"
  "ancestors_and_self [a, b, c, d] = [[a], [a, b], [a, b, c], [a, b, c, d]]"
  "ancestors_and_self [a, b, c, d, e] = [[a], [a, b], [a, b, c], [a, b, c, d], [a, b, c, d, e]]"
  by (simp_all add: ancestors_and_self_def upt_rec)

lemma example_store_eq:
  "example_store =
     [([''repo''], Dir), ([''repo'', ''.snow''], Dir),
      ([''repo'', ''.snow'', ''objects''], Dir),
      ([''repo'', ''.snow'', ''versions''], Dir),
      ([''repo'', ''.snow'', ''hooks''], Dir),
      ([''repo'', ''.snow'', ''refs''], Dir),
      ([''repo'', ''.snow'', ''config''], File (JSON_stringify defaultConfig)),
      ([''repo'', ''a.txt''], File ''hello''),
      ([''repo'', ''.snow'', ''objects'', ''c0''], Dir),
      ([''repo'', ''.snow'', ''objects'', ''c0'', ''ff''], Dir),
      ([''repo'', ''.snow'', ''objects'', ''c0'', ''ff'', ''c0ffee''], File ''hello'')]"
  by (simp add: example_store_def example_fs_eq)

lemma digit_char_values:
  "digit_char 0 = CHR ''0''" "digit_char 1 = CHR ''1''" "digit_char 2 = CHR ''2''"
  "digit_char 3 = CHR ''3''" "digit_char 4 = CHR ''4''" "digit_char 5 = CHR ''5''"
  "digit_char 6 = CHR ''6''" "digit_char 7 = CHR ''7''" "digit_char 8 = CHR ''8''"
  "digit_char 9 = CHR ''9''"
  by code_simp+

lemma example_hblock:
  "hblock_content [\<lparr>hb_start = 0, hb_end = 5, hb_hash = ''c0ffee''\<rparr>] = ''0;5;c0ffee;''"
  by (simp add: hblock_content_def hblock_line_def string_of_nat.simps digit_char_values)

text \<open>The claim as stated fails where the object is stored without a sidecar and the
  hasher makes blocks: the deduplicating write creates the sidecar below \<open>objects\<close>.\<close>

theorem writeObject_dedup_writes_sidecar:
  "map_of example_store [''repo'', ''.snow'', ''objects'', ''c0'', ''ff'', ''c0ffee''] = Some (File ''hello'')
   \<and> map_of example_store [''repo'', ''.snow'', ''objects'', ''c0'', ''ff'', ''c0ffee.hblock''] = None
   \<and> fst (writeObject example_hasher (\<lambda>c. c) example_odb ''t1'' [''repo'', ''a.txt''] example_store)
       = Inr ([''a.txt''], ''c0ffee'')
   \<and> map_of (snd (writeObject example_hasher (\<lambda>c. c) example_odb ''t1'' [''repo'', ''a.txt''] example_store))
         [''repo'', ''.snow'', ''objects'', ''c0'', ''ff'', ''c0ffee.hblock'']
       = Some (File ''0;5;c0ffee;'')"
proof -
  let ?cd = "commondir (options (repo example_odb))"
  let ?dst = "shard (join ?cd [''objects'']) ''c0ffee''"
  let ?bs = "[\<lparr>hb_start = 0, hb_end = 5, hb_hash = ''c0ffee''\<rparr>]"
  have cd: "?cd = [''repo'', ''.snow'']"
    by (simp add: example_odb_def example_repo_def example_options_def)
  have wd: "relative (repoWorkDir (repo example_odb)) [''repo'', ''a.txt''] = [''a.txt'']"
    by (simp add: example_odb_def example_repo_def)
  have dst: "?dst = [''repo'', ''.snow'', ''objects'', ''c0'', ''ff'', ''c0ffee'']"
    by (simp add: cd shard_def join_def)
  have side: "add_suffix [''repo'', ''.snow'', ''objects'', ''c0'', ''ff'', ''c0ffee''] ''.hblock''
      = [''repo'', ''.snow'', ''objects'', ''c0'', ''ff'', ''c0ffee.hblock'']"
    by (simp add: add_suffix_def)
  have 1: "fst (ensureDir (?cd @ [''tmp'']) example_store) = Inr ()"
    by (simp add: cd example_store_eq ensureDir_def ancestors_values)
  have 2: "map_of example_store [''repo'', ''a.txt''] = Some (File ''hello'')"
    by (simp add: example_store_eq)
  have 3: "''t1'' \<noteq> []"
    by simp
  have 4: "map_of example_store (?cd @ [''tmp'', ''t1'']) \<noteq> Some Dir"
    by (simp add: cd example_store_eq)
  have 5: "example_hasher ''hello'' = (''c0ffee'', Some ?bs)"
    by (simp add: example_hasher_def)
  have 6: "map_of example_store ?dst \<noteq> None"
    by (simp add: dst example_store_eq)
  have 7: "map_of example_store (butlast ?dst) = Some Dir
      \<and> map_of example_store (add_suffix ?dst ''.hblock'') \<noteq> Some Dir"
    by (simp add: dst side example_store_eq)
  have run: "writeObject example_hasher (\<lambda>c. c) example_odb ''t1'' [''repo'', ''a.txt''] example_store
     = (Inr ([''a.txt''], ''c0ffee''),
        AList.update [''repo'', ''.snow'', ''objects'', ''c0'', ''ff'', ''c0ffee.hblock''] (File ''0;5;c0ffee;'')
          (snd (remove (?cd @ [''tmp'', ''t1'']) (AList.update (?cd @ [''tmp'', ''t1'']) (File ''hello'')
             (snd (ensureDir (?cd @ [''tmp'']) example_store))))))"
    using writeObject_dedup_run [of example_odb example_store "[''repo'', ''a.txt'']" "''hello''" "''t1''"
        example_hasher "''c0ffee''" "Some ?bs" "\<lambda>c. c", OF 1 2 3 4 5 6 7]
    by (simp add: wd dst side example_hblock)
  show ?thesis
    unfolding run by (simp add: example_store_eq update_conv')
qed

theorem writeObject_dedup_witness:
  "\<exists>fs'. writeObject example_hasher (\<lambda>c. c) example_odb ''t1'' [''repo'', ''a.txt''] example_store
            = (Inr ([''a.txt''], ''c0ffee''), fs')
     \<and> map_of fs' [''repo'', ''.snow'', ''objects'', ''c0'', ''ff'', ''c0ffee''] = Some (File ''hello'')
     \<and> map_of fs' [''repo'', ''.snow'', ''tmp'', ''t1''] = None
     \<and> map_of fs' [''repo'', ''.snow'', ''objects'', ''c0'', ''ff'', ''c0ffee.hblock'']
          = Some (File (hblock_content [\<lparr>hb_start = 0, hb_end = 5, hb_hash = ''c0ffee''\<rparr>]))"
proof -
  let ?cd = "commondir (options (repo example_odb))"
  let ?dst = "shard (join ?cd [''objects'']) ''c0ffee''"
  let ?bs = "[\<lparr>hb_start = 0, hb_end = 5, hb_hash = ''c0ffee''\<rparr>]"
  have cd: "?cd = [''repo'', ''.snow'']"
    by (simp add: example_odb_def example_repo_def example_options_def)
  have wd: "relative (repoWorkDir (repo example_odb)) [''repo'', ''a.txt''] = [''a.txt'']"
    by (simp add: example_odb_def example_repo_def)
  have dst: "?dst = [''repo'', ''.snow'', ''objects'', ''c0'', ''ff'', ''c0ffee'']"
    by (simp add: cd shard_def join_def)
  have side: "add_suffix [''repo'', ''.snow'', ''objects'', ''c0'', ''ff'', ''c0ffee''] ''.hblock''
      = [''repo'', ''.snow'', ''objects'', ''c0'', ''ff'', ''c0ffee.hblock'']"
    by (simp add: add_suffix_def)
  have 1: "fst (ensureDir (?cd @ [''tmp'']) example_store) = Inr ()"
    by (simp add: cd example_store_eq ensureDir_def ancestors_values)
  have 2: "map_of example_store [''repo'', ''a.txt''] = Some (File ''hello'')"
    by (simp add: example_store_eq)
  have 3: "''t1'' \<noteq> []"
    by simp
  have 4: "map_of example_store (?cd @ [''tmp'', ''t1'']) \<noteq> Some Dir"
    by (simp add: cd example_store_eq)
  have 5: "example_hasher ''hello'' = (''c0ffee'', Some ?bs)"
    by (simp add: example_hasher_def)
  have 6: "map_of example_store ?dst \<noteq> None"
    by (simp add: dst example_store_eq)
  have 7: "map_of example_store (butlast ?dst) = Some Dir
      \<and> map_of example_store (add_suffix ?dst ''.hblock'') \<noteq> Some Dir"
    by (simp add: dst side example_store_eq)
  from writeObject_dedup [of example_odb example_store "[''repo'', ''a.txt'']" "''hello''" "''t1''"
        example_hasher "''c0ffee''" "Some ?bs" "\<lambda>c. c", OF 1 2 3 4 5 6 7]
  obtain fs' where
    r: "writeObject example_hasher (\<lambda>c. c) example_odb ''t1'' [''repo'', ''a.txt''] example_store
            = (Inr (relative (repoWorkDir (repo example_odb)) [''repo'', ''a.txt''], ''c0ffee''), fs')"
    and a: "map_of fs' ?dst = map_of example_store ?dst"
    and b: "map_of fs' (?cd @ [''tmp'', ''t1'']) = None"
    and d: "map_of fs' (add_suffix ?dst ''.hblock'') = (case Some ?bs of None \<Rightarrow> map_of example_store (add_suffix ?dst ''.hblock'')
             | Some bs \<Rightarrow> Some (File (hblock_content bs)))"
    by (elim exE conjE)
  have r': "writeObject example_hasher (\<lambda>c. c) example_odb ''t1'' [''repo'', ''a.txt''] example_store
            = (Inr ([''a.txt''], ''c0ffee''), fs')"
    using r unfolding wd .
  have f1: "map_of fs' [''repo'', ''.snow'', ''objects'', ''c0'', ''ff'', ''c0ffee''] = Some (File ''hello'')"
    using a by (simp add: dst example_store_eq)
  have f2: "map_of fs' [''repo'', ''.snow'', ''tmp'', ''t1''] = None"
    using b by (simp add: cd)
  have f3: "map_of fs' [''repo'', ''.snow'', ''objects'', ''c0'', ''ff'', ''c0ffee.hblock'']
          = Some (File (hblock_content ?bs))"
    using d by (simp add: dst side)
  show ?thesis
    by (rule exI [of _ fs']) (intro conjI r' f1 f2 f3)
qed

lemma example_worktree_eq:
  "example_worktree =
     [([''repo''], Dir), ([''repo'', ''.snow''], Dir),
      ([''repo'', ''.snow'', ''objects''], Dir),
      ([''repo'', ''.snow'', ''versions''], Dir),
      ([''repo'', ''.snow'', ''hooks''], Dir),
      ([''repo'', ''.snow'', ''refs''], Dir),
      ([''repo'', ''.snow'', ''config''], File (JSON_stringify defaultConfig)),
      ([''repo'', ''a.txt''], File ''hello'')]"
  by (simp add: example_worktree_def example_fs_eq)

lemma five: "Suc (Suc (Suc (Suc (Suc 0)))) = 5"
  by simp

lemma compress_write:
  "writeObject example_hasher codec example_odb_compress ''t1'' [''repo'', ''a.txt''] example_worktree
     = (Inr ([''a.txt''], ''c0ffee''),
     [([''repo''], Dir), ([''repo'', ''.snow''], Dir),
      ([''repo'', ''.snow'', ''objects''], Dir),
      ([''repo'', ''.snow'', ''versions''], Dir),
      ([''repo'', ''.snow'', ''hooks''], Dir),
      ([''repo'', ''.snow'', ''refs''], Dir),
      ([''repo'', ''.snow'', ''config''], File (JSON_stringify defaultConfig)),
      ([''repo'', ''a.txt''], File ''hello''),
      ([''repo'', ''.snow'', ''tmp''], Dir),
      ([''repo'', ''.snow'', ''objects'', ''c0''], Dir),
      ([''repo'', ''.snow'', ''objects'', ''c0'', ''ff''], Dir),
      ([''repo'', ''.snow'', ''objects'', ''c0'', ''ff'', ''c0ffee''], File (codec ''hello'')),
      ([''repo'', ''.snow'', ''objects'', ''c0'', ''ff'', ''c0ffee.hblock''], File ''0;5;c0ffee;'')])"
  by (simp add: writeObject_def example_odb_compress_def example_worktree_eq example_hasher_def
      Let_def join_def shard_def then_io_def ensureDir_def ancestors_values copyFile_def readFile_def
      writeFile_def parent_is_dir_def calculateFileHash_def resolve_def pathExists_def exists_path_def
      zipFile_def remove_def add_suffix_def five example_hblock)


lemma compress_read:
  "readObject example_odb_compress ''c0ffee'' [''repo'', ''b.txt'']
     [([''repo''], Dir), ([''repo'', ''.snow''], Dir),
      ([''repo'', ''.snow'', ''objects''], Dir),
      ([''repo'', ''.snow'', ''versions''], Dir),
      ([''repo'', ''.snow'', ''hooks''], Dir),
      ([''repo'', ''.snow'', ''refs''], Dir),
      ([''repo'', ''.snow'', ''config''], File (JSON_stringify defaultConfig)),
      ([''repo'', ''a.txt''], File ''hello''),
      ([''repo'', ''.snow'', ''tmp''], Dir),
      ([''repo'', ''.snow'', ''objects'', ''c0''], Dir),
      ([''repo'', ''.snow'', ''objects'', ''c0'', ''ff''], Dir),
      ([''repo'', ''.snow'', ''objects'', ''c0'', ''ff'', ''c0ffee''], File (codec ''hello'')),
      ([''repo'', ''.snow'', ''objects'', ''c0'', ''ff'', ''c0ffee.hblock''], File ''0;5;c0ffee;'')]
   = (Inr (),
     [([''repo''], Dir), ([''repo'', ''.snow''], Dir),
      ([''repo'', ''.snow'', ''objects''], Dir),
      ([''repo'', ''.snow'', ''versions''], Dir),
      ([''repo'', ''.snow'', ''hooks''], Dir),
      ([''repo'', ''.snow'', ''refs''], Dir),
      ([''repo'', ''.snow'', ''config''], File (JSON_stringify defaultConfig)),
      ([''repo'', ''a.txt''], File ''hello''),
      ([''repo'', ''.snow'', ''tmp''], Dir),
      ([''repo'', ''.snow'', ''objects'', ''c0''], Dir),
      ([''repo'', ''.snow'', ''objects'', ''c0'', ''ff''], Dir),
      ([''repo'', ''.snow'', ''objects'', ''c0'', ''ff'', ''c0ffee''], File (codec ''hello'')),
      ([''repo'', ''.snow'', ''objects'', ''c0'', ''ff'', ''c0ffee.hblock''], File ''0;5;c0ffee;''),
      ([''repo'', ''b.txt''], File (codec ''hello''))])"
  by (simp add: readObject_def example_odb_compress_def Let_def join_def then_io_def
      pathExists_def exists_path_def copyFile_def readFile_def writeFile_def parent_is_dir_def)

text \<open>
  C1 at a repository with \<open>compress\<close> set, for every codec: \<open>writeObject\<close> of a file holding
  \<open>hello\<close> returns its hash, \<open>readObject\<close> of that hash succeeds, the source is unchanged,
  and the destination holds the codec's output for \<open>hello\<close>, not \<open>hello\<close>: nothing on the
  read path undoes the compression of the write path.
\<close>

theorem writeObject_readObject_compressed:
  "fst (writeObject example_hasher codec example_odb_compress ''t1'' [''repo'', ''a.txt''] example_worktree)
     = Inr ([''a.txt''], ''c0ffee'')
   \<and> fst (readObject example_odb_compress ''c0ffee'' [''repo'', ''b.txt'']
          (snd (writeObject example_hasher codec example_odb_compress ''t1'' [''repo'', ''a.txt'']
                  example_worktree)))
     = Inr ()
   \<and> map_of (snd (readObject example_odb_compress ''c0ffee'' [''repo'', ''b.txt'']
          (snd (writeObject example_hasher codec example_odb_compress ''t1'' [''repo'', ''a.txt'']
                  example_worktree)))) [''repo'', ''b.txt'']
     = Some (File (codec ''hello''))
   \<and> map_of (snd (readObject example_odb_compress ''c0ffee'' [''repo'', ''b.txt'']
          (snd (writeObject example_hasher codec example_odb_compress ''t1'' [''repo'', ''a.txt'']
                  example_worktree)))) [''repo'', ''a.txt'']
     = Some (File ''hello'')"
  by (simp add: compress_write compress_read)

section \<open>Reading back what was printed\<close>

subsection \<open>String literals\<close>

lemma parse_chars_raw:
  "quoting_safe s \<Longrightarrow> parse_chars (s @ DQ # r) = Some (s, r)"
  by (induction s) (auto simp: quoting_safe_def safe_char_def)

lemma hex_digits_all: "list_all (\<lambda>d. hex_val (hex_char d) = Some d) [0..<16]"
  by code_simp

lemma hex_digits: "d < 16 \<Longrightarrow> hex_val (hex_char d) = Some d"
  using hex_digits_all by (simp add: list_all_iff)

lemma hex4_of_control:
  assumes "is_control c"
  shows "hex4 (CHR ''0'') (CHR ''0'') (hex_char (of_char c div 16)) (hex_char (of_char c mod 16)) = Some c"
proof -
  let ?n = "of_char c :: nat"
  have n: "?n < 32" using assms by (simp add: is_control_def)
  have z: "hex_val (CHR ''0'') = Some 0" by code_simp
  have hi: "hex_val (hex_char (?n div 16)) = Some (?n div 16)"
    using n by (intro hex_digits) simp
  have lo: "hex_val (hex_char (?n mod 16)) = Some (?n mod 16)"
    by (intro hex_digits) simp
  have "char_of (16 * (?n div 16) + ?n mod 16) = c"
    by simp
  then show ?thesis
    by (simp add: hex4_def z hi lo)
qed

lemma parse_chars_escaped_char:
  assumes "parse_chars r = Some (s, t)"
  shows "parse_chars (escape_char c @ r) = Some (c # s, t)"
proof -
  consider "c = DQ" | "c = BSL" | "c = CHR 0x08" | "c = CHR 0x0C" | "c = LF" | "c = CHR 0x0D"
    | "c = CHR 0x09"
    | "c \<notin> {DQ, BSL, CHR 0x08, CHR 0x0C, LF, CHR 0x0D, CHR 0x09}" "is_control c"
    | "c \<notin> {DQ, BSL, CHR 0x08, CHR 0x0C, LF, CHR 0x0D, CHR 0x09}" "\<not> is_control c"
    by blast
  then show ?thesis
  proof cases
    case 8
    then show ?thesis
      using assms hex4_of_control [of c]
      by (simp add: escape_char_def)
  next
    case 9
    then show ?thesis
      using assms by (simp add: escape_char_def)
  qed (use assms in \<open>simp_all add: escape_char_def unescape_def\<close>)
qed

lemma parse_chars_escaped:
  "parse_chars (concat (map escape_char s) @ DQ # r) = Some (s, r)"
  by (induction s) (simp_all add: parse_chars_escaped_char)

subsection \<open>Numbers\<close>

lemma digit_char_all:
  "list_all (\<lambda>d. is_digit (digit_char d) \<and> digit_val (digit_char d) = d
       \<and> (digit_char d = CHR ''0'' \<longleftrightarrow> d = 0)) [0..<10]"
  by code_simp

lemma digit_char_props:
  assumes "d < 10"
  shows "is_digit (digit_char d)" "digit_val (digit_char d) = d" "digit_char d = CHR ''0'' \<longleftrightarrow> d = 0"
  using digit_char_all assms by (simp_all add: list_all_iff)

lemma string_of_nat_digits: "list_all is_digit (string_of_nat n)"
proof (induction n rule: string_of_nat.induct)
  case (1 n)
  then show ?case
    by (subst string_of_nat.simps) (simp add: digit_char_props)
qed

lemma string_of_nat_nonempty: "string_of_nat n \<noteq> []"
  by (subst string_of_nat.simps) simp

lemma nat_of_digits_snoc: "nat_of_digits (ds @ [c]) = 10 * nat_of_digits ds + digit_val c"
  by (simp add: nat_of_digits_def)

lemma nat_of_string_of_nat: "nat_of_digits (string_of_nat n) = n"
proof (induction n rule: string_of_nat.induct)
  case (1 n)
  show ?case
  proof (cases "n < 10")
    case True
    then show ?thesis
      by (subst string_of_nat.simps) (simp add: nat_of_digits_def digit_char_props)
  next
    case False
    then show ?thesis
      using 1 by (subst string_of_nat.simps) (simp add: nat_of_digits_snoc digit_char_props)
  qed
qed

lemma string_of_nat_hd: "hd (string_of_nat n) = CHR ''0'' \<longleftrightarrow> n = 0"
proof (induction n rule: string_of_nat.induct)
  case (1 n)
  show ?case
  proof (cases "n < 10")
    case True
    then show ?thesis
      by (subst string_of_nat.simps) (simp add: digit_char_props)
  next
    case False
    then have "n div 10 \<noteq> 0" by simp
    then show ?thesis
      using 1 False string_of_nat_nonempty [of "n div 10"]
      by (subst string_of_nat.simps) simp
  qed
qed

lemma string_of_nat_no_leading_zero:
  "1 < length (string_of_nat n) \<Longrightarrow> hd (string_of_nat n) \<noteq> CHR ''0''"
proof -
  assume len: "1 < length (string_of_nat n)"
  have "n \<noteq> 0"
  proof
    assume "n = 0"
    then have "string_of_nat n = [digit_char 0]" by (subst string_of_nat.simps) simp
    with len show False by simp
  qed
  then show ?thesis by (simp add: string_of_nat_hd)
qed

lemma takeWhile_digits:
  assumes "list_all is_digit ds" and "number_end r"
  shows "takeWhile is_digit (ds @ r) = ds" and "dropWhile is_digit (ds @ r) = r"
  using assms by (induction ds) (auto elim: number_end.elims)

lemma number_end_tail: "number_end r \<Longrightarrow> (case r of c # t \<Rightarrow> c \<in> set ''.eE'' | [] \<Rightarrow> False) = False"
  by (cases r) auto

lemma parse_number_nat:
  assumes "number_end r"
  shows "parse_number (string_of_nat n @ r) = Some (JNumber (int n), r)"
proof -
  let ?ds = "string_of_nat n"
  have d: "list_all is_digit ?ds" by (rule string_of_nat_digits)
  have ne: "?ds \<noteq> []" by (rule string_of_nat_nonempty)
  have fst_digit: "is_digit (hd ?ds)"
    using d ne by (cases ?ds) simp_all
  then have not_minus: "hd ?ds \<noteq> CHR ''-''"
    by (auto simp: is_digit_def)
  have neg: "(case ?ds @ r of c # t \<Rightarrow> c = CHR ''-'' | [] \<Rightarrow> False) = False"
    using ne not_minus by (cases ?ds) simp_all
  show ?thesis
    unfolding parse_number_def Let_def neg
    using takeWhile_digits [OF d assms] ne string_of_nat_no_leading_zero [of n] number_end_tail [OF assms]
    by (simp add: nat_of_string_of_nat)
qed

lemma parse_number_int:
  assumes "number_end r"
  shows "parse_number (string_of_int i @ r) = Some (JNumber i, r)"
proof (cases "i < 0")
  case False
  then show ?thesis
    using parse_number_nat [OF assms, of "nat i"] by (simp add: string_of_int_def)
next
  case True
  let ?ds = "string_of_nat (nat (- i))"
  have d: "list_all is_digit ?ds" by (rule string_of_nat_digits)
  have ne: "?ds \<noteq> []" by (rule string_of_nat_nonempty)
  show ?thesis
    using True takeWhile_digits [OF d assms] ne string_of_nat_no_leading_zero [of "nat (- i)"]
      number_end_tail [OF assms]
    by (simp add: string_of_int_def parse_number_def Let_def nat_of_string_of_nat)
qed

subsection \<open>Values\<close>

lemma skip_ws_no_ws: "\<not> is_ws c \<Longrightarrow> skip_ws (c # cs) = c # cs"
  by (simp add: skip_ws_def)

lemma skip_ws_ws: "list_all is_ws w \<Longrightarrow> skip_ws (w @ s) = skip_ws s"
  by (induction w) (simp_all add: skip_ws_def)

lemma parse_value_ws: "list_all is_ws w \<Longrightarrow> parse_value (w @ s) = parse_value s"
  by (induction w) simp_all

lemma is_digit_not_special:
  assumes "is_digit c \<or> c = CHR ''-''"
  shows "\<not> is_ws c" "c \<noteq> CHR ''{''" "c \<noteq> CHR ''[''" "c \<noteq> DQ" "c \<noteq> CHR ''t''" "c \<noteq> CHR ''f''"
    "c \<noteq> CHR ''n''" "c \<noteq> CHR '']''" "c \<noteq> CHR ''}''"
  using assms by (auto simp: is_digit_def is_ws_def)

lemma string_of_int_head:
  "\<exists>c cs. string_of_int i = c # cs \<and> (is_digit c \<or> c = CHR ''-'')"
proof (cases "i < 0")
  case True
  then show ?thesis by (simp add: string_of_int_def)
next
  case False
  obtain c cs where "string_of_nat (nat i) = c # cs"
    using string_of_nat_nonempty [of "nat i"] by (cases "string_of_nat (nat i)") auto
  moreover from this have "is_digit c"
    using string_of_nat_digits [of "nat i"] by simp
  ultimately show ?thesis using False by (simp add: string_of_int_def)
qed

lemma parse_value_number:
  assumes "number_end r"
  shows "parse_value (string_of_int i @ r) = Some (JNumber i, r)"
proof -
  obtain c cs where s: "string_of_int i = c # cs" and c: "is_digit c \<or> c = CHR ''-''"
    using string_of_int_head by blast
  have "parse_value (c # cs @ r) = parse_number (c # cs @ r)"
    using is_digit_not_special [OF c] by simp
  then show ?thesis
    using parse_number_int [OF assms, of i] by (simp add: s)
qed

lemma parse_value_quote: "parse_value (quote s @ r) = Some (JString s, r)"
  by (simp add: quote_def parse_chars_escaped is_ws_def)

lemma parse_value_raw_string:
  "quoting_safe s \<Longrightarrow> parse_value (in_quotes s @ r) = Some (JString s, r)"
  by (simp add: in_quotes_def parse_chars_raw is_ws_def)

text \<open>The first character of a printed value opens nothing but that value.\<close>

lemma stringify_head:
  "\<exists>c cs. JSON_stringify v = c # cs \<and> \<not> is_ws c \<and> c \<noteq> CHR '']'' \<and> c \<noteq> CHR ''}''"
proof (cases v)
  case (JNumber i)
  obtain c cs where s: "string_of_int i = c # cs" and c: "is_digit c \<or> c = CHR ''-''"
    using string_of_int_head by blast
  show ?thesis
    using is_digit_not_special [OF c] by (simp add: JNumber s)
next
  case (JBool b)
  then show ?thesis by (cases b) (simp_all add: is_ws_def)
qed (simp_all add: quote_def is_ws_def)

lemma parse_elements_printed:
  assumes "vs \<noteq> []"
    and "\<And>v r. v \<in> set vs \<Longrightarrow> number_end r \<Longrightarrow> parse_value (JSON_stringify v @ r) = Some (v, r)"
  shows "parse_elements (intersperse '','' (map JSON_stringify vs) @ CHR '']'' # r) = Some (vs, r)"
  using assms
proof (induction vs rule: list_nonempty_induct)
  case (single v)
  have "parse_value (JSON_stringify v @ CHR '']'' # r) = Some (v, CHR '']'' # r)"
    using single [of v "CHR '']'' # r"] by (simp add: is_digit_def)
  then show ?case
    by (subst parse_elements.simps) (simp add: skip_ws_def is_ws_def)
next
  case (cons v vs)
  obtain v' vs' where vs: "vs = v' # vs'"
    using cons.hyps by (cases vs) auto
  define rest where "rest = intersperse '','' (map JSON_stringify vs) @ CHR '']'' # r"
  have shape: "intersperse '','' (map JSON_stringify (v # vs)) @ CHR '']'' # r
      = JSON_stringify v @ CHR '','' # rest"
    by (simp add: vs rest_def)
  have first: "parse_value (JSON_stringify v @ CHR '','' # rest) = Some (v, CHR '','' # rest)"
    using cons.prems [of v "CHR '','' # rest"] by (simp add: is_digit_def)
  have more: "parse_elements rest = Some (vs, r)"
    unfolding rest_def by (rule cons.IH) (simp add: cons.prems)
  show ?case
    unfolding shape
    by (subst parse_elements.simps) (simp add: first more skip_ws_def is_ws_def)
qed

lemma parse_member_printed:
  assumes "parse_value (JSON_stringify v @ d # rest) = Some (v, d # rest)"
    and "d = CHR ''}'' \<or> d = CHR '',''"
  shows "parse_members (quote k @ '':'' @ JSON_stringify v @ d # rest)
     = (if d = CHR ''}'' then Some ([(k, v)], rest)
        else case parse_members rest of None \<Rightarrow> None | Some (kvs, t) \<Rightarrow> Some ((k, v) # kvs, t))"
  using assms
  by (subst parse_members.simps)
     (auto simp: quote_def skip_ws_def is_ws_def parse_chars_escaped)

lemma parse_members_printed:
  assumes "kvs \<noteq> []"
    and "\<And>k v r. (k, v) \<in> set kvs \<Longrightarrow> number_end r \<Longrightarrow> parse_value (JSON_stringify v @ r) = Some (v, r)"
  shows "parse_members (intersperse '','' (map (\<lambda>(k, v). quote k @ '':'' @ JSON_stringify v) kvs) @ CHR ''}'' # r)
           = Some (kvs, r)"
  using assms
proof (induction kvs rule: list_nonempty_induct)
  case (single kv)
  obtain k v where kv: "kv = (k, v)" by (cases kv)
  have val: "parse_value (JSON_stringify v @ CHR ''}'' # r) = Some (v, CHR ''}'' # r)"
    using single [of k v "CHR ''}'' # r"] by (simp add: kv is_digit_def)
  show ?case
    using parse_member_printed [OF val, of k] by (simp add: kv)
next
  case (cons kv kvs)
  obtain k v where kv: "kv = (k, v)" by (cases kv)
  obtain kv' kvs' where kvs: "kvs = kv' # kvs'"
    using cons.hyps by (cases kvs) auto
  define rest where
    "rest = intersperse '','' (map (\<lambda>(k, v). quote k @ '':'' @ JSON_stringify v) kvs) @ CHR ''}'' # r"
  have shape: "intersperse '','' (map (\<lambda>(k, v). quote k @ '':'' @ JSON_stringify v) (kv # kvs)) @ CHR ''}'' # r
      = quote k @ '':'' @ JSON_stringify v @ CHR '','' # rest"
    by (simp add: kvs kv rest_def)
  have val: "parse_value (JSON_stringify v @ CHR '','' # rest) = Some (v, CHR '','' # rest)"
    using cons.prems [of k v "CHR '','' # rest"] by (simp add: kv is_digit_def)
  have more: "parse_members rest = Some (kvs, r)"
    unfolding rest_def
  proof (rule cons.IH)
    fix k' v' r'
    assume "(k', v') \<in> set kvs" "number_end r'"
    then show "parse_value (JSON_stringify v' @ r') = Some (v', r')"
      using cons.prems [of k' v' r'] by simp
  qed
  show ?case
    unfolding shape using parse_member_printed [OF val, of k] more by (simp add: kv)
qed

lemma parse_value_stringify:
  "number_end r \<Longrightarrow> parse_value (JSON_stringify v @ r) = Some (v, r)"
proof (induction v arbitrary: r)
  case JNull
  then show ?case by (simp add: is_ws_def parse_literal_def)
next
  case (JBool b)
  then show ?case by (simp add: is_ws_def parse_literal_def)
next
  case (JNumber i)
  then show ?case by (simp add: parse_value_number)
next
  case (JString s)
  then show ?case by (simp add: parse_value_quote)
next
  case (JArray vs)
  show ?case
  proof (cases vs)
    case Nil
    then show ?thesis by (simp add: is_ws_def skip_ws_def)
  next
    case (Cons v vs')
    obtain c cs where hd: "JSON_stringify v = c # cs" "\<not> is_ws c" "c \<noteq> CHR '']''"
      using stringify_head by blast
    define body where "body = intersperse '','' (map JSON_stringify vs) @ CHR '']'' # r"
    have "\<exists>t. body = c # t"
      using hd Cons by (cases vs') (simp_all add: body_def)
    then obtain t where body: "body = c # t" by blast
    have el: "parse_elements body = Some (vs, r)"
      unfolding body_def using JArray.IH JArray.prems Cons by (intro parse_elements_printed) simp_all
    have sk: "skip_ws body = c # t"
      unfolding body using hd by (simp add: skip_ws_no_ws)
    have "parse_value (CHR ''['' # body) = Some (JArray vs, r)"
      using hd(3) by (simp add: is_ws_def sk el)
    then show ?thesis by (simp add: body_def)
  qed
next
  case (JObject kvs)
  show ?case
  proof (cases kvs)
    case Nil
    then show ?thesis by (simp add: is_ws_def skip_ws_def)
  next
    case (Cons kv kvs')
    define body where
      "body = intersperse '','' (map (\<lambda>(k, v). quote k @ '':'' @ JSON_stringify v) kvs) @ CHR ''}'' # r"
    have "\<exists>t. body = DQ # t"
      using Cons by (cases kv; cases kvs') (simp_all add: quote_def body_def)
    then obtain t where body: "body = DQ # t" by blast
    have mem: "parse_members body = Some (kvs, r)"
      unfolding body_def
    proof (intro parse_members_printed)
      show "kvs \<noteq> []" using Cons by simp
    next
      fix k v r'
      assume "(k, v) \<in> set kvs" "number_end r'"
      then show "parse_value (JSON_stringify v @ r') = Some (v, r')"
        using JObject.IH [of "(k, v)" v r'] by simp
    qed
    have sk: "skip_ws body = DQ # t"
      unfolding body by (simp add: skip_ws_def is_ws_def)
    have "parse_value (CHR ''{'' # body) = Some (JObject kvs, r)"
      by (simp add: is_ws_def sk mem)
    then show ?thesis by (simp add: body_def)
  qed
qed

subsection \<open>The text of a commit\<close>

lemma parse_elements_raw:
  "list_all quoting_safe (p # ps) \<Longrightarrow>
   parse_elements (DQ # intersperse [DQ, CHR '','', DQ] (p # ps) @ DQ # CHR '']'' # r)
     = Some (map JString (p # ps), r)"
proof (induction ps arbitrary: p)
  case Nil
  have "parse_value (in_quotes p @ CHR '']'' # r) = Some (JString p, CHR '']'' # r)"
    using Nil by (intro parse_value_raw_string) simp
  then show ?case
    by (subst parse_elements.simps) (simp add: in_quotes_def skip_ws_def is_ws_def)
next
  case (Cons q qs)
  define rest where "rest = DQ # intersperse [DQ, CHR '','', DQ] (q # qs) @ DQ # CHR '']'' # r"
  have shape: "DQ # intersperse [DQ, CHR '','', DQ] (p # q # qs) @ DQ # CHR '']'' # r
      = in_quotes p @ CHR '','' # rest"
    by (simp add: rest_def in_quotes_def)
  have first: "parse_value (in_quotes p @ CHR '','' # rest) = Some (JString p, CHR '','' # rest)"
    using Cons.prems by (intro parse_value_raw_string) simp
  have more: "parse_elements rest = Some (map JString (q # qs), r)"
    unfolding rest_def using Cons.prems by (intro Cons.IH) simp
  show ?case
    unfolding shape
    by (subst parse_elements.simps) (simp add: first more skip_ws_def is_ws_def)
qed

lemma parse_parent_text:
  assumes "list_all quoting_safe ps"
  shows "parse_value ('' ['' @ parent_text ps @ CHR '']'' # r) = Some (persisted_parent ps, r)"
proof (cases ps)
  case Nil
  have "parse_value (in_quotes [] @ CHR '']'' # r) = Some (JString [], CHR '']'' # r)"
    by (intro parse_value_raw_string) (simp add: quoting_safe_def)
  then have "parse_elements (DQ # DQ # CHR '']'' # r) = Some ([JString []], r)"
    by (subst parse_elements.simps) (simp add: in_quotes_def skip_ws_def is_ws_def)
  then show ?thesis
    by (simp add: Nil parent_text_def in_quotes_def persisted_parent_def is_ws_def skip_ws_def)
next
  case (Cons p ps')
  define body where "body = DQ # intersperse [DQ, CHR '','', DQ] (p # ps') @ DQ # CHR '']'' # r"
  have el: "parse_elements body = Some (map JString (p # ps'), r)"
    unfolding body_def using assms Cons by (intro parse_elements_raw) simp
  obtain b where b: "body = DQ # b"
    by (simp add: body_def)
  have sk: "skip_ws body = DQ # b"
    by (simp add: b skip_ws_def is_ws_def)
  have "parse_value (CHR '' '' # CHR ''['' # body) = Some (JArray (map JString (p # ps')), r)"
    by (simp add: is_ws_def sk el)
  then show ?thesis
    by (simp add: Cons parent_text_def in_quotes_def persisted_parent_def body_def)
qed

lemma parse_elements_tags:
  "list_all quoting_safe (t # ts) \<Longrightarrow>
   parse_elements (CHR '' '' # in_quotes t @ tag_items '', '' ts @ CHR '' '' # CHR '']'' # r)
     = Some (map JString (t # ts), r)"
proof (induction ts arbitrary: t)
  case Nil
  have "parse_value (in_quotes t @ CHR '' '' # CHR '']'' # r) = Some (JString t, CHR '' '' # CHR '']'' # r)"
    using Nil by (intro parse_value_raw_string) simp
  then show ?case
    by (subst parse_elements.simps) (simp add: skip_ws_def is_ws_def)
next
  case (Cons u us)
  define rest where "rest = CHR '' '' # in_quotes u @ tag_items '', '' us @ CHR '' '' # CHR '']'' # r"
  have shape: "CHR '' '' # in_quotes t @ tag_items '', '' (u # us) @ CHR '' '' # CHR '']'' # r
      = CHR '' '' # in_quotes t @ CHR '','' # rest"
    by (simp add: rest_def)
  have first: "parse_value (in_quotes t @ CHR '','' # rest) = Some (JString t, CHR '','' # rest)"
    using Cons.prems by (intro parse_value_raw_string) simp
  have more: "parse_elements rest = Some (map JString (u # us), r)"
    unfolding rest_def using Cons.prems by (intro Cons.IH) simp
  show ?case
    unfolding shape
    by (subst parse_elements.simps) (simp add: first more skip_ws_def is_ws_def)
qed

lemma parse_tags_array:
  assumes "list_all quoting_safe ts"
  shows "parse_value ('' ['' @ tag_items '' '' ts @ '' ]'' @ r) = Some (JArray (map JString ts), r)"
proof (cases ts)
  case Nil
  then show ?thesis by (simp add: is_ws_def skip_ws_def)
next
  case (Cons t ts')
  define body where "body = CHR '' '' # in_quotes t @ tag_items '', '' ts' @ CHR '' '' # CHR '']'' # r"
  have el: "parse_elements body = Some (map JString (t # ts'), r)"
    unfolding body_def using assms Cons by (intro parse_elements_tags) simp
  obtain b where b: "skip_ws body = DQ # b"
    by (simp add: body_def skip_ws_def is_ws_def in_quotes_def)
  note sk = b
  have "parse_value (CHR '' '' # CHR ''['' # body) = Some (JArray (map JString (t # ts')), r)"
    by (simp add: is_ws_def sk el)
  then show ?thesis
    by (simp add: Cons body_def)
qed

text \<open>One member whose key is written raw, with white space before the key and a value
  that is followed by a comma or by the closing brace.\<close>

lemma parse_member_raw_gen:
  assumes "list_all is_ws w" and "quoting_safe k"
    and "parse_value (vt @ d # rest) = Some (v, d # rest)"
    and "\<not> is_ws d"
  shows "parse_members (w @ in_quotes k @ CHR '':'' # vt @ d # rest)
     = (if d = CHR ''}'' then Some ([(k, v)], rest)
        else if d = CHR '','' then
          (case parse_members rest of None \<Rightarrow> None | Some (kvs, t) \<Rightarrow> Some ((k, v) # kvs, t))
        else None)"
proof -
  define s where "s = w @ in_quotes k @ CHR '':'' # vt @ d # rest"
  define s3 where "s3 = vt @ d # rest"
  have sk: "skip_ws s = DQ # k @ DQ # CHR '':'' # s3"
    using skip_ws_ws [OF assms(1)] by (simp add: s_def s3_def in_quotes_def skip_ws_def is_ws_def)
  have key: "parse_chars (k @ DQ # CHR '':'' # s3) = Some (k, CHR '':'' # s3)"
    using assms(2) by (rule parse_chars_raw)
  have colon: "skip_ws (CHR '':'' # s3) = CHR '':'' # s3"
    by (simp add: skip_ws_def is_ws_def)
  have val: "parse_value s3 = Some (v, d # rest)"
    using assms(3) by (simp add: s3_def)
  have dws: "skip_ws (d # rest) = d # rest"
    using assms(4) by (simp add: skip_ws_def)
  have len: "length s3 < length s" "length rest < length s"
    by (simp_all add: s_def s3_def in_quotes_def)
  have "parse_members s
     = (if d = CHR ''}'' then Some ([(k, v)], rest)
        else if d = CHR '','' then
          (case parse_members rest of None \<Rightarrow> None | Some (kvs, t) \<Rightarrow> Some ((k, v) # kvs, t))
        else None)"
    by (subst parse_members.simps) (simp add: sk key colon val dws len)
  then show ?thesis by (simp add: s_def)
qed

lemma parse_member_raw:
  assumes "list_all is_ws w" and "quoting_safe k"
    and "parse_value (vt @ d # rest) = Some (v, d # rest)"
    and "d = CHR ''}'' \<or> d = CHR '',''"
  shows "parse_members (w @ in_quotes k @ CHR '':'' # vt @ d # rest)
     = (if d = CHR ''}'' then Some ([(k, v)], rest)
        else case parse_members rest of None \<Rightarrow> None | Some (kvs, t) \<Rightarrow> Some ((k, v) # kvs, t))"
proof -
  have "\<not> is_ws d" using assms(4) by (auto simp: is_ws_def)
  from parse_member_raw_gen [OF assms(1,2,3) this] assms(4) show ?thesis by auto
qed

lemma line_break_ws: "list_all is_ws line_break"
  by (simp add: line_break_def is_ws_def list_all_iff)

lemma key_safe:
  "quoting_safe ''hash''" "quoting_safe ''message''" "quoting_safe ''date''" "quoting_safe ''parent''"
  "quoting_safe ''root''" "quoting_safe ''tags''" "quoting_safe ''userData''"
  by (simp_all add: quoting_safe_def safe_char_def is_control_def)

text \<open>What follows the root: the closing brace, or a comma and the members of the tags
  and the user data.\<close>

lemma parse_commit_tail:
  assumes "case tgs of None \<Rightarrow> True | Some ts \<Rightarrow> list_all quoting_safe ts"
  shows "\<exists>d e. tags_text tgs @ userData_text ud @ CHR ''}'' # r = d # e
     \<and> (d = CHR ''}'' \<or> d = CHR '','')
     \<and> (if d = CHR ''}'' then persisted_tags tgs @ persisted_userData ud = [] \<and> e = r
         else parse_members e = Some (persisted_tags tgs @ persisted_userData ud, r))"
proof -
  have user: "parse_members (in_quotes ''userData'' @ '': '' @ JSON_stringify u @ CHR ''}'' # r)
      = Some ([(''userData'', u)], r)" for u
  proof -
    have "parse_value (JSON_stringify u @ CHR ''}'' # r) = Some (u, CHR ''}'' # r)"
      by (intro parse_value_stringify) (simp add: is_digit_def)
    then have "parse_value (('' '' @ JSON_stringify u) @ CHR ''}'' # r) = Some (u, CHR ''}'' # r)"
      by (simp add: is_ws_def)
    from parse_member_raw [of "[]" "''userData''", OF _ key_safe(7) this]
    show ?thesis by simp
  qed
  show ?thesis
  proof (cases tgs)
    case None
    show ?thesis
    proof (cases "\<exists>u. ud = Some u \<and> truthy u")
      case False
      then have "userData_text ud = []" "persisted_userData ud = []"
        by (auto simp: userData_text_def persisted_userData_def split: option.splits)
      then show ?thesis
        by (simp add: None tags_text_def persisted_tags_def)
    next
      case True
      then obtain u where u: "ud = Some u" "truthy u" by blast
      show ?thesis
        using user [of u]
        by (simp add: None u tags_text_def persisted_tags_def userData_text_def persisted_userData_def)
    qed
  next
    case (Some ts)
    then have safe: "list_all quoting_safe ts" using assms by simp
    show ?thesis
    proof (cases "\<exists>u. ud = Some u \<and> truthy u")
      case False
      then have e: "userData_text ud = []" "persisted_userData ud = []"
        by (auto simp: userData_text_def persisted_userData_def split: option.splits)
      have "parse_value (('' ['' @ tag_items '' '' ts @ '' ]'') @ CHR ''}'' # r)
          = Some (JArray (map JString ts), CHR ''}'' # r)"
        using parse_tags_array [OF safe, of "CHR ''}'' # r"] by simp
      from parse_member_raw [of "[]" "''tags''", OF _ key_safe(6) this]
      show ?thesis
        by (simp add: Some e tags_text_def persisted_tags_def)
    next
      case True
      then obtain u where u: "ud = Some u" "truthy u" by blast
      define rest where "rest = in_quotes ''userData'' @ '': '' @ JSON_stringify u @ CHR ''}'' # r"
      have "parse_value (('' ['' @ tag_items '' '' ts @ '' ]'') @ CHR '','' # rest)
          = Some (JArray (map JString ts), CHR '','' # rest)"
        using parse_tags_array [OF safe, of "CHR '','' # rest"] by simp
      from parse_member_raw [of "[]" "''tags''", OF _ key_safe(6) this]
      have "parse_members (in_quotes ''tags'' @ CHR '':'' # ('' ['' @ tag_items '' '' ts @ '' ]'') @ CHR '','' # rest)
          = Some ([(''tags'', JArray (map JString ts)), (''userData'', u)], r)"
        using user [of u] by (simp add: rest_def)
      then show ?thesis
        by (simp add: Some u tags_text_def persisted_tags_def userData_text_def persisted_userData_def
            rest_def)
    qed
  qed
qed

lemma parse_commit_text:
  assumes safe: "raw_strings_safe c"
  shows "JSON_parse (commit_text c) = Inr (persisted c)"
proof -
  let ?T = "persisted_tags (tags c) @ persisted_userData (commit_userData c)"
  have s: "quoting_safe (commit_hash c)" "quoting_safe (message c)" "list_all quoting_safe (parent c)"
    "case tags c of None \<Rightarrow> True | Some ts \<Rightarrow> list_all quoting_safe ts"
    using safe by (simp_all add: raw_strings_safe_def)
  obtain d e where tail: "tags_text (tags c) @ userData_text (commit_userData c) @ CHR ''}'' # [] = d # e"
    and d: "d = CHR ''}'' \<or> d = CHR '',''"
    and rest: "if d = CHR ''}'' then ?T = [] \<and> e = [] else parse_members e = Some (?T, [])"
    using parse_commit_tail [OF s(4), of "commit_userData c" "[]"] by blast
  define m_root where "m_root = '' '' @ in_quotes ''root'' @ CHR '':'' # tree_toString (root c) @ d # e"
  define m_parent where
    "m_parent = line_break @ in_quotes ''parent'' @ CHR '':'' # ('' ['' @ parent_text (parent c) @ '']'') @ CHR '','' # m_root"
  define m_date where
    "m_date = line_break @ in_quotes ''date'' @ CHR '':'' # ('' '' @ string_of_int (date c)) @ CHR '','' # m_parent"
  define m_message where
    "m_message = line_break @ in_quotes ''message'' @ CHR '':'' # ('' '' @ in_quotes (message c)) @ CHR '','' # m_date"
  define m_hash where
    "m_hash = [] @ in_quotes ''hash'' @ CHR '':'' # ('' '' @ in_quotes (commit_hash c)) @ CHR '','' # m_message"
  have shape: "commit_text c = CHR ''{'' # m_hash"
    using tail
    by (simp add: commit_text_def m_hash_def m_message_def m_date_def m_parent_def m_root_def)
  have ne: "number_end (d # e)"
    using d by (auto simp: is_digit_def)
  have "parse_value (tree_toString (root c) @ d # e) = Some (tree_json (root c), d # e)"
    unfolding tree_toString_def using ne by (rule parse_value_stringify)
  from parse_member_raw [of "'' ''" "''root''", OF _ key_safe(5) this d]
  have p_root: "parse_members m_root = Some ((''root'', tree_json (root c)) # ?T, [])"
    using rest by (auto simp: m_root_def is_ws_def)
  have "parse_value (('' ['' @ parent_text (parent c) @ '']'') @ CHR '','' # m_root)
      = Some (persisted_parent (parent c), CHR '','' # m_root)"
    using parse_parent_text [OF s(3), of "CHR '','' # m_root"] by simp
  from parse_member_raw [of line_break "''parent''", OF line_break_ws key_safe(4) this]
  have p_parent: "parse_members m_parent
      = Some ((''parent'', persisted_parent (parent c)) # (''root'', tree_json (root c)) # ?T, [])"
    by (simp add: m_parent_def p_root)
  have "parse_value (string_of_int (date c) @ CHR '','' # m_parent) = Some (JNumber (date c), CHR '','' # m_parent)"
    by (intro parse_value_number) (simp add: is_digit_def)
  then have "parse_value (('' '' @ string_of_int (date c)) @ CHR '','' # m_parent)
      = Some (JNumber (date c), CHR '','' # m_parent)"
    by (simp add: is_ws_def)
  from parse_member_raw [of line_break "''date''", OF line_break_ws key_safe(3) this]
  have p_date: "parse_members m_date
      = Some ((''date'', JNumber (date c)) # (''parent'', persisted_parent (parent c))
              # (''root'', tree_json (root c)) # ?T, [])"
    by (simp add: m_date_def p_parent)
  have "parse_value (in_quotes (message c) @ CHR '','' # m_date) = Some (JString (message c), CHR '','' # m_date)"
    using s(2) by (rule parse_value_raw_string)
  then have "parse_value (('' '' @ in_quotes (message c)) @ CHR '','' # m_date)
      = Some (JString (message c), CHR '','' # m_date)"
    by (simp add: is_ws_def)
  from parse_member_raw [of line_break "''message''", OF line_break_ws key_safe(2) this]
  have p_message: "parse_members m_message
      = Some ((''message'', JString (message c)) # (''date'', JNumber (date c))
              # (''parent'', persisted_parent (parent c)) # (''root'', tree_json (root c)) # ?T, [])"
    by (simp add: m_message_def p_date)
  have "parse_value (in_quotes (commit_hash c) @ CHR '','' # m_message)
      = Some (JString (commit_hash c), CHR '','' # m_message)"
    using s(1) by (rule parse_value_raw_string)
  then have "parse_value (('' '' @ in_quotes (commit_hash c)) @ CHR '','' # m_message)
      = Some (JString (commit_hash c), CHR '','' # m_message)"
    by (simp add: is_ws_def)
  from parse_member_raw [of "[]" "''hash''", OF _ key_safe(1) this]
  have p_hash: "parse_members m_hash
      = Some ((''hash'', JString (commit_hash c)) # (''message'', JString (message c))
              # (''date'', JNumber (date c)) # (''parent'', persisted_parent (parent c))
              # (''root'', tree_json (root c)) # ?T, [])"
    by (simp add: m_hash_def p_message)
  obtain b where b: "skip_ws m_hash = DQ # b"
    by (simp add: m_hash_def in_quotes_def skip_ws_def is_ws_def)
  have "parse_value (CHR ''{'' # m_hash) = Some (persisted c, [])"
    by (simp add: is_ws_def b p_hash persisted_def)
  then show ?thesis
    by (simp add: JSON_parse_def shape skip_ws_def)
qed

section \<open>\<open>writeCommit\<close> and \<open>readCommits\<close>\<close>

lemma visit_tree_json:
  "\<exists>n. visit (tree_json t) = Inr n \<and> same_tree t n"
proof (induction t)
  case (TreeFile name h)
  show ?case by simp
next
  case (TreeDir name children)
  have "\<exists>ns. visit_all (map tree_json children) = Inr ns \<and> same_trees children ns"
    using TreeDir
  proof (induction children)
    case Nil
    then show ?case by simp
  next
    case (Cons t ts)
    obtain n where n: "visit (tree_json t) = Inr n" "same_tree t n"
      using Cons.prems by auto
    obtain ns where ns: "visit_all (map tree_json ts) = Inr ns" "same_trees ts ns"
      using Cons by auto
    show ?case
      using n ns by simp
  qed
  then show ?case by auto
qed

lemma persisted_lookup:
  "map_of (rev ([(''hash'', h), (''message'', m), (''date'', d), (''parent'', p), (''root'', r)]
       @ persisted_tags tgs @ persisted_userData ud)) ''root'' = Some r"
  "map_of (rev ([(''hash'', h), (''message'', m), (''date'', d), (''parent'', p), (''root'', r)]
       @ persisted_tags tgs @ persisted_userData ud)) ''date'' = Some d"
  "map_of (rev ([(''hash'', h), (''message'', m), (''date'', d), (''parent'', p), (''root'', r)]
       @ persisted_tags tgs @ persisted_userData ud)) ''hash'' = Some h"
  "map_of (rev ([(''hash'', h), (''message'', m), (''date'', d), (''parent'', p), (''root'', r)]
       @ persisted_tags tgs @ persisted_userData ud)) ''parent'' = Some p"
  "map_of (rev ([(''hash'', h), (''message'', m), (''date'', d), (''parent'', p), (''root'', r)]
       @ persisted_tags tgs @ persisted_userData ud)) ''tags''
     = (case tgs of None \<Rightarrow> None | Some ts \<Rightarrow> Some (JArray (map JString ts)))"
  by (auto simp: persisted_tags_def persisted_userData_def split: option.splits)

lemma revive_persisted:
  assumes "\<bar>date c\<bar> \<le> 8640000000000000"
  shows "\<exists>rc. revive (persisted c) = Inr rc
     \<and> map_of (rev (rc_props rc)) ''hash'' = Some (JString (commit_hash c))
     \<and> rc_date rc = DateMs (date c)
     \<and> same_tree (root c) (rc_root rc)"
proof -
  obtain n where n: "visit (tree_json (root c)) = Inr n" "same_tree (root c) n"
    using visit_tree_json by blast
  define kvs where "kvs = [(''hash'', JString (commit_hash c)), (''message'', JString (message c)),
      (''date'', JNumber (date c)), (''parent'', persisted_parent (parent c)),
      (''root'', tree_json (root c))] @ persisted_tags (tags c) @ persisted_userData (commit_userData c)"
  have p: "persisted c = JObject kvs"
    by (simp add: persisted_def kvs_def)
  have l: "map_of (rev kvs) ''root'' = Some (tree_json (root c))"
    "map_of (rev kvs) ''date'' = Some (JNumber (date c))"
    "map_of (rev kvs) ''hash'' = Some (JString (commit_hash c))"
    unfolding kvs_def by (rule persisted_lookup)+
  show ?thesis
    using n assms by (simp add: revive_def p l)
qed

lemma writeCommit_plain:
  "plain_name (commit_hash c) \<Longrightarrow>
   writeCommit db c fs
     = writeFile (commondir (options (repo db)) @ [''versions'', commit_hash c]) (commit_text c) fs"
proof -
  assume pl: "plain_name (commit_hash c)"
  then have "commit_hash c \<noteq> []" "CHR ''/'' \<notin> set (commit_hash c)"
    by (simp_all add: plain_name_def)
  then have "last (commit_hash c) \<noteq> CHR ''/''"
    using last_in_set by metis
  then show ?thesis
    by (simp add: writeCommit_def join_def join_name_plain [OF pl])
qed

lemma writeCommit_written:
  assumes "fst (writeCommit db c fs) = Inr ()"
  shows "map_of (snd (writeCommit db c fs))
           (join_name (commondir (options (repo db)) @ [''versions'']) (commit_hash c))
         = Some (File (commit_text c))"
  using assms
  by (auto simp: writeCommit_def join_def reject_def writeFile_cases update_conv'
      split: if_splits)

lemma read_all_readable:
  "\<forall>q\<in>set qs. readable_commit fs q \<Longrightarrow>
   \<exists>vs cs. read_all qs fs = (Inr vs, fs) \<and> revive_all vs = Inr cs
     \<and> (\<forall>q\<in>set qs. \<forall>t v. map_of fs q = Some (File t) \<longrightarrow> JSON_parse t = Inr v
            \<longrightarrow> (\<exists>rc. revive v = Inr rc \<and> rc \<in> set cs))"
proof (induction qs)
  case Nil
  show ?case by (simp add: resolve_def)
next
  case (Cons q qs)
  obtain vs cs where rest: "read_all qs fs = (Inr vs, fs)" "revive_all vs = Inr cs"
    and found: "\<forall>q\<in>set qs. \<forall>t v. map_of fs q = Some (File t) \<longrightarrow> JSON_parse t = Inr v
            \<longrightarrow> (\<exists>rc. revive v = Inr rc \<and> rc \<in> set cs)"
    using Cons by auto
  have "readable_commit fs q"
    using Cons.prems by simp
  then obtain t v rc where q: "map_of fs q = Some (File t)" "JSON_parse t = Inr v" "revive v = Inr rc"
    by (auto simp: readable_commit_def split: option.splits entry.splits sum.splits)
  have 1: "read_all (q # qs) fs = (Inr (v # vs), fs)"
    using q rest by (simp add: then_io_def readFile_def resolve_def)
  have 2: "revive_all (v # vs) = Inr (rc # cs)"
    using q rest by simp
  have 3: "\<forall>q'\<in>set (q # qs). \<forall>t v. map_of fs q' = Some (File t) \<longrightarrow> JSON_parse t = Inr v
            \<longrightarrow> (\<exists>rc'. revive v = Inr rc' \<and> rc' \<in> set (rc # cs))"
  proof (intro ballI allI impI)
    fix q' t' v'
    assume a: "q' \<in> set (q # qs)" "map_of fs q' = Some (File t')" "JSON_parse t' = Inr v'"
    show "\<exists>rc'. revive v' = Inr rc' \<and> rc' \<in> set (rc # cs)"
    proof (cases "q' = q")
      case True
      then have "v' = v"
        using a q by simp
      then show ?thesis
        using q by simp
    next
      case False
      then have "q' \<in> set qs"
        using a by simp
      then obtain rc' where "revive v' = Inr rc'" "rc' \<in> set cs"
        using found a by blast
      then show ?thesis by simp
    qed
  qed
  have "read_all (q # qs) fs = (Inr (v # vs), fs) \<and> revive_all (v # vs) = Inr (rc # cs)
     \<and> (\<forall>q'\<in>set (q # qs). \<forall>t v. map_of fs q' = Some (File t) \<longrightarrow> JSON_parse t = Inr v
            \<longrightarrow> (\<exists>rc'. revive v = Inr rc' \<and> rc' \<in> set (rc # cs)))"
    using 1 2 3 by (intro conjI)
  then show ?case
    by (rule_tac x = "v # vs" in exI, rule_tac x = "rc # cs" in exI)
qed

lemma is_file_case:
  "(case m of Some (File c) \<Rightarrow> True | _ \<Rightarrow> False) = (\<exists>t. m = Some (File t))"
  by (simp split: option.splits entry.splits)

lemma osWalk_files_set:
  "set (osWalk_files dir fs)
     = {p \<in> fst ` set fs. p \<noteq> [] \<and> butlast p = dir \<and> (\<exists>t. map_of fs p = Some (File t))}"
  unfolding osWalk_files_def is_file_case by auto

lemma osWalk_files_written:
  assumes "butlast p = dir" "p \<noteq> []"
  shows "set (osWalk_files dir (AList.update p (File t) fs)) = insert p (set (osWalk_files dir fs))"
  using assms
  by (auto simp: osWalk_files_set update_conv' dom_update)

lemma readable_commit_other:
  "q \<noteq> p \<Longrightarrow> readable_commit (AList.update p e fs) q = readable_commit fs q"
  by (simp add: readable_commit_def update_conv')

lemma readable_commit_written:
  assumes "raw_strings_safe c" "\<bar>date c\<bar> \<le> 8640000000000000"
  shows "readable_commit (AList.update p (File (commit_text c)) fs) p"
proof -
  obtain rc where "revive (persisted c) = Inr rc"
    using revive_persisted [OF assms(2)] by blast
  then show ?thesis
    using parse_commit_text [OF assms(1)]
    by (simp add: readable_commit_def update_conv')
qed

lemma example_commit_facts:
  "raw_strings_safe example_commit"
  "raw_strings_safe example_commit_no_tags"
  "plain_name (commit_hash example_commit)"
  "\<bar>date example_commit\<bar> \<le> 8640000000000000"
  "commit_hash example_commit_no_tags = commit_hash example_commit"
  by (simp_all add: raw_strings_safe_def example_commit_def example_commit_no_tags_def
      quoting_safe_def safe_char_def is_control_def plain_name_def)

lemma example_versions:
  "commondir (options (repo example_odb)) @ [''versions''] = [''repo'', ''.snow'', ''versions'']"
  "commondir (options (repo example_odb)) @ [''versions'', commit_hash example_commit]
     = [''repo'', ''.snow'', ''versions'', ''abc123'']"
  by (simp_all add: example_odb_def example_repo_def example_options_def example_commit_def)

lemma example_versions_empty:
  "osWalk_files [''repo'', ''.snow'', ''versions''] example_fs = []"
  by (simp add: osWalk_files_def example_fs_eq)

lemma example_writeCommit:
  assumes "commit_hash c = ''abc123''"
  shows "writeCommit example_odb c example_fs
     = (Inr (), AList.update [''repo'', ''.snow'', ''versions'', ''abc123''] (File (commit_text c)) example_fs)"
proof -
  have "plain_name (commit_hash c)"
    using assms by (simp add: plain_name_def)
  then show ?thesis
    using assms
    by (simp add: writeCommit_plain writeFile_cases parent_is_dir_def example_fs_eq
        example_odb_def example_repo_def example_options_def)
qed

text \<open>
  C3. A commit whose raw-embedded strings (hash, message, parent hashes, tags) hold no
  quote, backslash or control character, whose hash names one file, written into an
  existing \<open>versions\<close> directory whose other files are readable commits: \<open>writeCommit\<close>
  succeeds and \<open>readCommits\<close> on what it leaves returns a list holding a commit of that
  hash whose tree has the same kinds of node at every place, the children in the same
  order, the same names and file hashes, and whose date is the same time value.
\<close>

theorem writeCommit_readCommits:
  assumes "raw_strings_safe c" and "plain_name (commit_hash c)"
    and "\<bar>date c\<bar> \<le> 8640000000000000"
    and "map_of fs (commondir (options (repo db)) @ [''versions'']) = Some Dir"
    and "map_of fs (commondir (options (repo db)) @ [''versions'', commit_hash c]) \<noteq> Some Dir"
    and "\<forall>q\<in>set (osWalk_files (commondir (options (repo db)) @ [''versions'']) fs).
           q \<noteq> commondir (options (repo db)) @ [''versions'', commit_hash c]
           \<longrightarrow> readable_commit fs q"
  shows "\<exists>fs' cs rc. writeCommit db c fs = (Inr (), fs') \<and> readCommits db fs' = (Inr cs, fs')
           \<and> rc \<in> set cs
           \<and> map_of (rev (rc_props rc)) ''hash'' = Some (JString (commit_hash c))
           \<and> rc_date rc = DateMs (date c)
           \<and> same_tree (root c) (rc_root rc)"
proof -
  define dir where "dir = commondir (options (repo db)) @ [''versions'']"
  define p where "p = commondir (options (repo db)) @ [''versions'', commit_hash c]"
  define fs' where "fs' = AList.update p (File (commit_text c)) fs"
  have pd: "butlast p = dir" "p \<noteq> []"
    by (simp_all add: p_def dir_def butlast_append)
  have w: "writeCommit db c fs = (Inr (), fs')"
    using assms(4,5) pd
    by (simp add: writeCommit_plain [OF assms(2)] writeFile_cases parent_is_dir_def
        p_def [symmetric] dir_def [symmetric] fs'_def)
  have walk: "set (osWalk_files dir fs') = insert p (set (osWalk_files dir fs))"
    unfolding fs'_def using pd by (rule osWalk_files_written)
  have readable: "\<forall>q\<in>set (osWalk_files dir fs'). readable_commit fs' q"
  proof
    fix q
    assume q: "q \<in> set (osWalk_files dir fs')"
    show "readable_commit fs' q"
    proof (cases "q = p")
      case True
      then show ?thesis
        unfolding fs'_def using readable_commit_written [OF assms(1,3)] by simp
    next
      case False
      then have "q \<in> set (osWalk_files dir fs)"
        using q walk by simp
      then have "readable_commit fs q"
        using assms(6) False by (simp add: dir_def p_def)
      then show ?thesis
        unfolding fs'_def using False by (simp add: readable_commit_other)
    qed
  qed
  obtain vs cs where r: "read_all (osWalk_files dir fs') fs' = (Inr vs, fs')" "revive_all vs = Inr cs"
    and found: "\<forall>q\<in>set (osWalk_files dir fs'). \<forall>t v. map_of fs' q = Some (File t)
           \<longrightarrow> JSON_parse t = Inr v \<longrightarrow> (\<exists>rc. revive v = Inr rc \<and> rc \<in> set cs)"
    using read_all_readable [OF readable] by blast
  have rd: "readCommits db fs' = (Inr cs, fs')"
    using r by (simp add: readCommits_def join_def dir_def [symmetric] then_io_def resolve_def)
  have "p \<in> set (osWalk_files dir fs')"
    using walk by simp
  moreover have "map_of fs' p = Some (File (commit_text c))"
    by (simp add: fs'_def update_conv')
  moreover have "JSON_parse (commit_text c) = Inr (persisted c)"
    using assms(1) by (rule parse_commit_text)
  ultimately obtain rc where rc: "revive (persisted c) = Inr rc" "rc \<in> set cs"
    using found by blast
  obtain rc' where rc': "revive (persisted c) = Inr rc'"
    "map_of (rev (rc_props rc')) ''hash'' = Some (JString (commit_hash c))"
    "rc_date rc' = DateMs (date c)" "same_tree (root c) (rc_root rc')"
    using revive_persisted [OF assms(3)] by blast
  have "rc' = rc"
    using rc rc' by simp
  then have "writeCommit db c fs = (Inr (), fs') \<and> readCommits db fs' = (Inr cs, fs')
           \<and> rc \<in> set cs
           \<and> map_of (rev (rc_props rc)) ''hash'' = Some (JString (commit_hash c))
           \<and> rc_date rc = DateMs (date c)
           \<and> same_tree (root c) (rc_root rc)"
    using w rd rc rc' by simp
  then show ?thesis
    by (rule_tac x = fs' in exI, rule_tac x = cs in exI, rule_tac x = rc in exI)
qed

theorem writeCommit_readCommits_witness:
  "raw_strings_safe example_commit \<and> plain_name (commit_hash example_commit)
   \<and> \<bar>date example_commit\<bar> \<le> 8640000000000000
   \<and> map_of example_fs [''repo'', ''.snow'', ''versions''] = Some Dir
   \<and> map_of example_fs [''repo'', ''.snow'', ''versions'', ''abc123''] = None
   \<and> osWalk_files [''repo'', ''.snow'', ''versions''] example_fs = []
   \<and> (\<exists>fs' cs rc. writeCommit example_odb example_commit example_fs = (Inr (), fs')
         \<and> readCommits example_odb fs' = (Inr cs, fs')
         \<and> rc \<in> set cs
         \<and> map_of (rev (rc_props rc)) ''hash'' = Some (JString ''abc123'')
         \<and> rc_date rc = DateMs 1612137600000
         \<and> same_tree
              (TreeDir [] [TreeFile ''a.txt'' ''c0ffee'', TreeDir ''sub'' [TreeFile ''b.txt'' ''decaf'']])
              (rc_root rc))"
proof -
  have 1: "map_of example_fs [''repo'', ''.snow'', ''versions''] = Some Dir"
    "map_of example_fs [''repo'', ''.snow'', ''versions'', ''abc123''] = None"
    by (simp_all add: example_fs_eq)
  have 2: "commit_hash example_commit = ''abc123''" "date example_commit = 1612137600000"
    "root example_commit
       = TreeDir [] [TreeFile ''a.txt'' ''c0ffee'', TreeDir ''sub'' [TreeFile ''b.txt'' ''decaf'']]"
    by (simp_all add: example_commit_def)
  have "\<exists>fs' cs rc. writeCommit example_odb example_commit example_fs = (Inr (), fs')
         \<and> readCommits example_odb fs' = (Inr cs, fs')
         \<and> rc \<in> set cs
         \<and> map_of (rev (rc_props rc)) ''hash'' = Some (JString (commit_hash example_commit))
         \<and> rc_date rc = DateMs (date example_commit)
         \<and> same_tree (root example_commit) (rc_root rc)"
    using writeCommit_readCommits [of example_commit example_fs example_odb]
    by (simp add: example_commit_facts example_versions example_versions_empty 1)
  then have 3: "\<exists>fs' cs rc. writeCommit example_odb example_commit example_fs = (Inr (), fs')
         \<and> readCommits example_odb fs' = (Inr cs, fs')
         \<and> rc \<in> set cs
         \<and> map_of (rev (rc_props rc)) ''hash'' = Some (JString ''abc123'')
         \<and> rc_date rc = DateMs 1612137600000
         \<and> same_tree
              (TreeDir [] [TreeFile ''a.txt'' ''c0ffee'', TreeDir ''sub'' [TreeFile ''b.txt'' ''decaf'']])
              (rc_root rc)"
    unfolding 2 .
  show ?thesis
    by (intro conjI) (rule example_commit_facts 1 example_versions_empty 3)+
qed

lemma get_prop_persisted:
  "get_prop (persisted c) ''parent'' = Some (persisted_parent (parent c))"
  "get_prop (persisted c) ''tags''
     = (case tags c of None \<Rightarrow> None | Some ts \<Rightarrow> Some (JArray (map JString ts)))"
  unfolding persisted_def get_prop.simps by (rule persisted_lookup)+

text \<open>
  C6. \<open>writeCommit\<close> tests \<open>commit.tags\<close> for presence only. Where the raw-embedded strings
  are safe and the write succeeds, the file named by the hash holds the text of the commit,
  which parses to an object that has no \<open>tags\<close> member when the commit has no tags field,
  and whose \<open>tags\<close> member is the array of the tags, in order, when it has one: the empty
  array for an empty collection.
\<close>

theorem writeCommit_tags:
  assumes "raw_strings_safe c" and "fst (writeCommit db c fs) = Inr ()"
  shows "\<exists>v. map_of (snd (writeCommit db c fs))
               (join_name (commondir (options (repo db)) @ [''versions'']) (commit_hash c))
             = Some (File (commit_text c))
           \<and> JSON_parse (commit_text c) = Inr v
           \<and> get_prop v ''tags''
               = (case tags c of None \<Rightarrow> None | Some ts \<Rightarrow> Some (JArray (map JString ts)))"
proof -
  have "map_of (snd (writeCommit db c fs))
               (join_name (commondir (options (repo db)) @ [''versions'']) (commit_hash c))
             = Some (File (commit_text c))
           \<and> JSON_parse (commit_text c) = Inr (persisted c)
           \<and> get_prop (persisted c) ''tags''
               = (case tags c of None \<Rightarrow> None | Some ts \<Rightarrow> Some (JArray (map JString ts)))"
    by (intro conjI) (rule writeCommit_written [OF assms(2)] parse_commit_text [OF assms(1)]
        get_prop_persisted)+
  then show ?thesis
    by (rule_tac x = "persisted c" in exI)
qed

theorem writeCommit_tags_witness:
  "raw_strings_safe example_commit
   \<and> fst (writeCommit example_odb example_commit example_fs) = Inr ()
   \<and> tags example_commit = None
   \<and> (\<exists>v. JSON_parse (commit_text example_commit) = Inr v \<and> get_prop v ''tags'' = None)
   \<and> raw_strings_safe example_commit_no_tags
   \<and> fst (writeCommit example_odb example_commit_no_tags example_fs) = Inr ()
   \<and> tags example_commit_no_tags = Some []
   \<and> (\<exists>v. JSON_parse (commit_text example_commit_no_tags) = Inr v
          \<and> get_prop v ''tags'' = Some (JArray []))"
proof -
  have h: "commit_hash example_commit = ''abc123''" "commit_hash example_commit_no_tags = ''abc123''"
    by (simp_all add: example_commit_def example_commit_no_tags_def)
  have w: "fst (writeCommit example_odb example_commit example_fs) = Inr ()"
    "fst (writeCommit example_odb example_commit_no_tags example_fs) = Inr ()"
    by (simp_all add: example_writeCommit [OF h(1)] example_writeCommit [OF h(2)])
  have t: "tags example_commit = None" "tags example_commit_no_tags = Some []"
    by (simp_all add: example_commit_def example_commit_no_tags_def)
  have 1: "\<exists>v. JSON_parse (commit_text example_commit) = Inr v \<and> get_prop v ''tags'' = None"
    using writeCommit_tags [OF example_commit_facts(1) w(1)] by (auto simp: t)
  have 2: "\<exists>v. JSON_parse (commit_text example_commit_no_tags) = Inr v
          \<and> get_prop v ''tags'' = Some (JArray [])"
    using writeCommit_tags [OF example_commit_facts(2) w(2)] by (auto simp: t)
  show ?thesis
    by (intro conjI) (rule example_commit_facts w t 1 2)+
qed

theorem writeCommit_empty_tags_persisted:
  "tags example_commit_no_tags = Some []
   \<and> writeCommit example_odb example_commit_no_tags example_fs
       = (Inr (), AList.update [''repo'', ''.snow'', ''versions'', ''abc123'']
                    (File (commit_text example_commit_no_tags)) example_fs)
   \<and> tags_text (tags example_commit_no_tags) = '','' @ in_quotes ''tags'' @ '': [ ]''
   \<and> JSON_parse (commit_text example_commit_no_tags) = Inr (persisted example_commit_no_tags)
   \<and> get_prop (persisted example_commit_no_tags) ''tags'' = Some (JArray [])"
proof -
  have h: "commit_hash example_commit_no_tags = ''abc123''"
    by (simp add: example_commit_def example_commit_no_tags_def)
  have t: "tags example_commit_no_tags = Some []"
    by (simp add: example_commit_def example_commit_no_tags_def)
  have x: "tags_text (tags example_commit_no_tags) = '','' @ in_quotes ''tags'' @ '': [ ]''"
    by (simp add: t tags_text_def)
  have g: "get_prop (persisted example_commit_no_tags) ''tags'' = Some (JArray [])"
    by (simp add: get_prop_persisted t)
  show ?thesis
    by (intro conjI)
      (rule t example_writeCommit [OF h] x parse_commit_text [OF example_commit_facts(2)] g)+
qed

text \<open>
  C7. A commit with no parents, written into a fresh store: the text between the brackets
  of \<open>parent\<close> is a pair of quotes, so the file parses to an object whose \<open>parent\<close> is an
  array of one element, the empty string, and not the empty array.
\<close>

theorem writeCommit_no_parents:
  "parent example_commit = []
   \<and> writeCommit example_odb example_commit example_fs
       = (Inr (), AList.update [''repo'', ''.snow'', ''versions'', ''abc123'']
                    (File (commit_text example_commit)) example_fs)
   \<and> parent_text (parent example_commit) = [DQ, DQ]
   \<and> JSON_parse (commit_text example_commit) = Inr (persisted example_commit)
   \<and> get_prop (persisted example_commit) ''parent'' = Some (JArray [JString []])
   \<and> get_prop (persisted example_commit) ''parent'' \<noteq> Some (JArray [])"
proof -
  have h: "commit_hash example_commit = ''abc123''"
    by (simp add: example_commit_def)
  have p: "parent example_commit = []"
    by (simp add: example_commit_def)
  have x: "parent_text (parent example_commit) = [DQ, DQ]"
    by (simp add: p parent_text_def in_quotes_def)
  have g: "get_prop (persisted example_commit) ''parent'' = Some (JArray [JString []])"
    by (simp add: get_prop_persisted p persisted_parent_def)
  have n: "get_prop (persisted example_commit) ''parent'' \<noteq> Some (JArray [])"
    by (simp add: g)
  show ?thesis
    by (intro conjI)
      (rule p example_writeCommit [OF h] x parse_commit_text [OF example_commit_facts(1)] g n)+
qed

end
